theory Spec2Isabelle
  imports Main "HOL-Library.AList"
begin

section \<open>Data model (types.ts)\<close>

text \<open>
  Strings are \<^typ>\<open>string\<close>. An optional field is an \<^typ>\<open>'a option\<close>
  (\<open>None\<close> for \<open>undefined\<close> or \<open>null\<close>). A JavaScript \<open>Set\<close> of strings is the
  list of its members in insertion order, without repetition: \<open>size\<close> is the length,
  \<open>has\<close> is membership, \<open>add\<close> appends a member that is not yet there.
\<close>

record ProjectCode =
  html :: "string option"
  css :: "string option"
  js :: "string option"

definition emptyProjectCode :: ProjectCode where
  "emptyProjectCode = \<lparr>html = None, css = None, js = None\<rparr>"

record ValidationResult =
  success :: bool
  message :: string
  updatedProjectCode :: "ProjectCode option"

text \<open>Of a task only the identifier takes part in the progress logic.\<close>

record Task =
  task_id :: string

record Level =
  level_id :: string
  title :: string
  tasks :: "Task list"
  unlocksNextLevel :: "string option"

record LevelProgress =
  completedTasks :: "string list"
  currentProjectCode :: ProjectCode
  isCompleted :: bool

text \<open>
  \<open>UserProgress\<close> is an object keyed by level identifier: an association list whose
  keys are distinct. \<open>prev[levelId]\<close> is \<^const>\<open>map_of\<close>, the spread
  \<open>{...prev, [levelId]: v}\<close> is \<^const>\<open>AList.update\<close>.
\<close>

type_synonym UserProgress = "(string \<times> LevelProgress) list"

datatype AppView = level_selector | level_view

record AppState =
  currentView :: AppView
  currentLevelId :: "string option"
  userProgress :: UserProgress
  highestLevelUnlocked :: string

datatype js_error = TypeError

subsection \<open>Set and array primitives\<close>

definition set_add :: "string list \<Rightarrow> string \<Rightarrow> string list" where
  "set_add xs x = (if x \<in> set xs then xs else xs @ [x])"

text \<open>\<open>Array.prototype.findIndex\<close>: the first index whose element satisfies the test, or -1.\<close>

fun findIndex :: "('a \<Rightarrow> bool) \<Rightarrow> 'a list \<Rightarrow> int" where
  "findIndex P [] = - 1"
| "findIndex P (x # xs) =
     (if P x then 0 else (let r = findIndex P xs in if r < 0 then - 1 else r + 1))"

text \<open>\<open>xs[i]\<close>: \<open>None\<close> is \<open>undefined\<close>, what an index out of range reads.\<close>

definition at_index :: "'a list \<Rightarrow> int \<Rightarrow> 'a option" where
  "at_index xs i = (if 0 \<le> i \<and> i < int (length xs) then Some (xs ! nat i) else None)"

section \<open>Progress store (App: completeLevel, updateTaskProgress)\<close>

definition defaultProgress :: LevelProgress where
  "defaultProgress =
     \<lparr>completedTasks = [], currentProjectCode = emptyProjectCode, isCompleted = False\<rparr>"

text \<open>\<open>prev[levelId] || { completedTasks: new Set(), currentProjectCode: {}, isCompleted: false }\<close>\<close>

definition progressOrDefault :: "UserProgress \<Rightarrow> string \<Rightarrow> LevelProgress" where
  "progressOrDefault prev levelId =
     (case map_of prev levelId of Some p \<Rightarrow> p | None \<Rightarrow> defaultProgress)"

definition findLevel :: "Level list \<Rightarrow> string \<Rightarrow> Level option" where
  "findLevel LEVELS levelId = List.find (\<lambda>l. level_id l = levelId) LEVELS"

text \<open>
  The updater that \<open>updateTaskProgress\<close> hands to \<open>setUserProgress\<close>: the task is added
  to the set, the project code is replaced when an update is given, and the flag is
  raised when the size of the new set is the number of tasks of the level.
\<close>

definition updateTaskProgress ::
  "Level list \<Rightarrow> string \<Rightarrow> string \<Rightarrow> ProjectCode option \<Rightarrow> UserProgress \<Rightarrow> UserProgress" where
  "updateTaskProgress LEVELS levelId taskId projectCodeUpdate prev =
     (let currentLevelProgress = progressOrDefault prev levelId;
          newCompletedTasks = set_add (completedTasks currentLevelProgress) taskId;
          updatedLevelData = currentLevelProgress
            \<lparr>completedTasks := newCompletedTasks,
             currentProjectCode :=
               (case projectCodeUpdate of Some pc \<Rightarrow> pc
                | None \<Rightarrow> currentProjectCode currentLevelProgress)\<rparr>;
          updatedLevelData' =
            (case findLevel LEVELS levelId of
               Some levelDefinition \<Rightarrow>
                 if length newCompletedTasks = length (tasks levelDefinition)
                 then updatedLevelData\<lparr>isCompleted := True\<rparr> else updatedLevelData
             | None \<Rightarrow> updatedLevelData)
      in AList.update levelId updatedLevelData' prev)"

text \<open>
  The updater of \<open>completeLevel\<close>: the flag is set without looking at the set of
  completed tasks; the project code is the final one when given, else the stored one.
\<close>

definition completeLevelProgress ::
  "string \<Rightarrow> ProjectCode option \<Rightarrow> UserProgress \<Rightarrow> UserProgress" where
  "completeLevelProgress levelId finalProjectCode prev =
     (let base = (case map_of prev levelId of Some p \<Rightarrow> p
                  | None \<Rightarrow> \<lparr>completedTasks = [], currentProjectCode = emptyProjectCode,
                              isCompleted = False\<rparr>)
      in AList.update levelId
           (base\<lparr>isCompleted := True,
                 currentProjectCode :=
                   (case finalProjectCode of Some pc \<Rightarrow> pc
                    | None \<Rightarrow> (case map_of prev levelId of Some p \<Rightarrow> currentProjectCode p
                               | None \<Rightarrow> emptyProjectCode))\<rparr>)
           prev)"

definition completeLevel :: "string \<Rightarrow> ProjectCode option \<Rightarrow> AppState \<Rightarrow> AppState" where
  "completeLevel levelId finalProjectCode st =
     st\<lparr>userProgress := completeLevelProgress levelId finalProjectCode (userProgress st),
        currentView := level_selector,
        currentLevelId := None\<rparr>"

text \<open>A mutation of the store, and a run of mutations from left to right.\<close>

datatype mutation =
  UpdateTask string string "ProjectCode option"
| CompleteLevel string "ProjectCode option"

fun apply_mutation :: "Level list \<Rightarrow> mutation \<Rightarrow> UserProgress \<Rightarrow> UserProgress" where
  "apply_mutation LEVELS (UpdateTask l t pc) s = updateTaskProgress LEVELS l t pc s"
| "apply_mutation LEVELS (CompleteLevel l pc) s = completeLevelProgress l pc s"

fun run_mutations :: "Level list \<Rightarrow> mutation list \<Rightarrow> UserProgress \<Rightarrow> UserProgress" where
  "run_mutations LEVELS [] s = s"
| "run_mutations LEVELS (m # ms) s = run_mutations LEVELS ms (apply_mutation LEVELS m s)"

definition task_ids :: "Level \<Rightarrow> string list" where
  "task_ids L = map task_id (tasks L)"

text \<open>
  The completion invariant of the data model, for the stored progress of one level:
  the flag is up exactly when every task of the level is in the set, and exactly when
  the size of the set is the number of tasks.
\<close>

definition completion_ok :: "Level \<Rightarrow> LevelProgress \<Rightarrow> bool" where
  "completion_ok L p =
     ((isCompleted p = (set (task_ids L) \<subseteq> set (completedTasks p))) \<and>
      (isCompleted p = (length (completedTasks p) = length (tasks L))))"

text \<open>
  A catalog whose level identifiers are distinct and whose levels have distinct task
  identifiers.
\<close>

definition catalog_ok :: "Level list \<Rightarrow> bool" where
  "catalog_ok LEVELS =
     (distinct (map level_id LEVELS) \<and> list_all (\<lambda>L. distinct (task_ids L)) LEVELS)"

text \<open>
  The stored progress of a level satisfies the invariant, holds only tasks of the
  level, and holds each once.
\<close>

definition progress_ok :: "Level \<Rightarrow> LevelProgress \<Rightarrow> bool" where
  "progress_ok L p =
     (completion_ok L p \<and> set (completedTasks p) \<subseteq> set (task_ids L) \<and>
      distinct (completedTasks p))"

text \<open>Every level of the catalog with stored progress has it in order.\<close>

definition store_ok :: "Level list \<Rightarrow> UserProgress \<Rightarrow> bool" where
  "store_ok LEVELS s =
     list_all (\<lambda>L. case map_of s (level_id L) of None \<Rightarrow> True | Some p \<Rightarrow> progress_ok L p) LEVELS"

text \<open>
  The mutations of a level session: a task of the level is marked, and the level is
  completed when all its tasks are in the set.
\<close>

fun admissible :: "Level list \<Rightarrow> UserProgress \<Rightarrow> mutation \<Rightarrow> bool" where
  "admissible LEVELS s (UpdateTask l t pc) =
     (case findLevel LEVELS l of Some L \<Rightarrow> t \<in> set (task_ids L) | None \<Rightarrow> True)"
| "admissible LEVELS s (CompleteLevel l pc) =
     (case findLevel LEVELS l of
        Some L \<Rightarrow> set (task_ids L) \<subseteq> set (completedTasks (progressOrDefault s l))
      | None \<Rightarrow> True)"

fun admissible_run :: "Level list \<Rightarrow> mutation list \<Rightarrow> UserProgress \<Rightarrow> bool" where
  "admissible_run LEVELS [] s = True"
| "admissible_run LEVELS (m # ms) s =
     (admissible LEVELS s m \<and> admissible_run LEVELS ms (apply_mutation LEVELS m s))"

text \<open>A level of two tasks.\<close>

definition demo_level :: Level where
  "demo_level = \<lparr>level_id = ''1'', title = ''Intro'',
     tasks = [\<lparr>task_id = ''1.1''\<rparr>, \<lparr>task_id = ''1.2''\<rparr>], unlocksNextLevel = None\<rparr>"

text \<open>A store in which level 1 is completed.\<close>

definition demo_done :: UserProgress where
  "demo_done = [(''1'', \<lparr>completedTasks = [''1.1''], currentProjectCode = emptyProjectCode,
                         isCompleted = True\<rparr>)]"

section \<open>Unlock policy (App: the effect on userProgress)\<close>

text \<open>\<open>userProgress[id]?.isCompleted\<close>, read as a condition.\<close>

definition isCompletedIn :: "UserProgress \<Rightarrow> string \<Rightarrow> bool" where
  "isCompletedIn up levelId =
     (case map_of up levelId of Some p \<Rightarrow> isCompleted p | None \<Rightarrow> False)"

text \<open>\<open>!level.unlocksNextLevel\<close>: no target, or the empty string.\<close>

definition noUnlockTarget :: "Level \<Rightarrow> bool" where
  "noUnlockTarget level =
     (case unlocksNextLevel level of None \<Rightarrow> True | Some target \<Rightarrow> target = [])"

text \<open>
  The inner \<open>for\<close> loop over the whole catalog: the first level that is not completed,
  or the last level when the loop reaches it.
\<close>

fun innerScan :: "UserProgress \<Rightarrow> Level list \<Rightarrow> string \<Rightarrow> string" where
  "innerScan up [] maxUnlocked = maxUnlocked"
| "innerScan up (l # ls) maxUnlocked =
     (if \<not> isCompletedIn up (level_id l) then level_id l
      else innerScan up ls (if ls = [] then level_id l else maxUnlocked))"

text \<open>
  The \<open>for (const level of LEVELS)\<close> loop over the levels still to visit. It returns
  \<open>maxUnlocked\<close> and \<open>allLevelsCompleted\<close>; the \<open>break\<close> is the return in the second
  branch. \<open>LEVELS[levelIndex - 1]\<close> out of range is \<open>undefined\<close>, whose \<open>id\<close> raises.
\<close>

fun levelsLoop ::
  "Level list \<Rightarrow> UserProgress \<Rightarrow> Level list \<Rightarrow> string \<Rightarrow> js_error + (string \<times> bool)" where
  "levelsLoop LEVELS up [] maxUnlocked = Inr (maxUnlocked, True)"
| "levelsLoop LEVELS up (level # rest) maxUnlocked =
     (if isCompletedIn up (level_id level) then
        (case List.find (\<lambda>l. Some (level_id l) = unlocksNextLevel level) LEVELS of
           Some nextLevel \<Rightarrow> levelsLoop LEVELS up rest (level_id nextLevel)
         | None \<Rightarrow>
             if noUnlockTarget level then levelsLoop LEVELS up rest (level_id level)
             else levelsLoop LEVELS up rest maxUnlocked)
      else
        (let levelIndex = findIndex (\<lambda>l. level_id l = level_id level) LEVELS in
         if levelIndex = 0 then Inr (level_id level, False)
         else
           (case at_index LEVELS (levelIndex - 1) of
              None \<Rightarrow> Inl TypeError
            | Some prevLevel \<Rightarrow>
                if isCompletedIn up (level_id prevLevel) then Inr (level_id level, False)
                else Inr (innerScan up LEVELS maxUnlocked, False))))"

text \<open>The value the effect hands to \<open>setHighestLevelUnlocked\<close>.\<close>

definition computeHighestUnlocked :: "Level list \<Rightarrow> UserProgress \<Rightarrow> js_error + string" where
  "computeHighestUnlocked LEVELS up =
     (case LEVELS of
        [] \<Rightarrow> Inr ''1''
      | initialLevel # _ \<Rightarrow>
          (case levelsLoop LEVELS up LEVELS ''1'' of
             Inl e \<Rightarrow> Inl e
           | Inr (maxUnlocked, allLevelsCompleted) \<Rightarrow>
               Inr (if allLevelsCompleted \<and> 0 < length LEVELS then level_id (last LEVELS)
                    else if length LEVELS = 0 then ''1''
                    else maxUnlocked)))"

subsection \<open>The policy in the words of the specification\<close>

text \<open>
  A walk over the catalog in its order. A level is reached when it is the first one or
  the level right before it is completed; the walk stops at the first level that is
  reached and not completed.
\<close>

fun firstReachedNotCompleted :: "UserProgress \<Rightarrow> bool \<Rightarrow> Level list \<Rightarrow> Level option" where
  "firstReachedNotCompleted up reached [] = None"
| "firstReachedNotCompleted up reached (l # ls) =
     (if reached \<and> \<not> isCompletedIn up (level_id l) then Some l
      else firstReachedNotCompleted up (isCompletedIn up (level_id l)) ls)"

definition spec_highestUnlocked :: "Level list \<Rightarrow> UserProgress \<Rightarrow> string" where
  "spec_highestUnlocked LEVELS up =
     (if LEVELS = [] then ''1''
      else if list_all (\<lambda>l. isCompletedIn up (level_id l)) LEVELS then level_id (last LEVELS)
      else (case firstReachedNotCompleted up True LEVELS of
              Some l \<Rightarrow> level_id l
            | None \<Rightarrow> level_id (last LEVELS)))"

text \<open>A completed progress, and a chain of three levels.\<close>

definition completedProgress :: LevelProgress where
  "completedProgress =
     \<lparr>completedTasks = [], currentProjectCode = emptyProjectCode, isCompleted = True\<rparr>"

definition levelA :: Level where
  "levelA = \<lparr>level_id = ''A'', title = ''First'', tasks = [], unlocksNextLevel = Some ''B''\<rparr>"

definition levelB :: Level where
  "levelB = \<lparr>level_id = ''B'', title = ''Second'', tasks = [], unlocksNextLevel = Some ''C''\<rparr>"

definition levelC :: Level where
  "levelC = \<lparr>level_id = ''C'', title = ''Third'', tasks = [], unlocksNextLevel = None\<rparr>"

section \<open>Level selection (App: selectLevel)\<close>

definition dquote :: string where
  "dquote = [CHR 0x22]"

definition squote :: string where
  "squote = [CHR 0x27]"

text \<open>The text of the alert for a locked level.\<close>

definition lockedMessage :: "Level \<Rightarrow> Level \<Rightarrow> string" where
  "lockedMessage required locked =
     ''Please complete '' @ dquote @ title required @ dquote
       @ '' to unlock '' @ dquote @ title locked @ dquote @ ''.''"

text \<open>
  \<open>selectLevel\<close> returns the new state and the text of the \<open>alert\<close>, if one is shown.
  \<open>LEVELS[highestUnlockedIndex]\<close> is \<open>undefined\<close> when the index is -1, and reading its
  \<open>title\<close> raises.
\<close>

definition selectLevel ::
  "Level list \<Rightarrow> string \<Rightarrow> AppState \<Rightarrow> js_error + (AppState \<times> string option)" where
  "selectLevel LEVELS levelId st =
     (case List.find (\<lambda>l. level_id l = levelId) LEVELS of
        None \<Rightarrow> Inr (st, None)
      | Some levelExists \<Rightarrow>
          (let levelIndex = findIndex (\<lambda>l. level_id l = levelId) LEVELS;
               highestUnlockedIndex =
                 findIndex (\<lambda>l. level_id l = highestLevelUnlocked st) LEVELS
           in if levelIndex \<le> highestUnlockedIndex
              then Inr (st\<lparr>currentLevelId := Some levelId, currentView := level_view\<rparr>, None)
              else if highestUnlockedIndex + 1 < int (length LEVELS)
              then
                (case at_index LEVELS highestUnlockedIndex of
                   None \<Rightarrow> Inl TypeError
                 | Some required \<Rightarrow>
                     (case at_index LEVELS (highestUnlockedIndex + 1) of
                        None \<Rightarrow> Inl TypeError
                      | Some locked \<Rightarrow>
                          Inr (st, Some (lockedMessage required locked))))
              else Inr (st, Some ''Complete previous levels to unlock this one!'')))"

text \<open>A state in which \<open>A\<close> is the highest unlocked level.\<close>

definition demo_state :: AppState where
  "demo_state = \<lparr>currentView = level_selector, currentLevelId = None, userProgress = [],
                  highestLevelUnlocked = ''A''\<rparr>"

section \<open>Level session (LevelView: handleCodeChange)\<close>

record LevelViewState =
  currentTaskIndex :: nat
  userCode :: string
  feedback :: "ValidationResult option"
  projectCode :: ProjectCode
  isSubmitting :: bool

text \<open>
  \<open>setUserCode(newCode); if (feedback?.success) return; setFeedback(null);\<close>
\<close>

definition handleCodeChange :: "string \<Rightarrow> LevelViewState \<Rightarrow> LevelViewState" where
  "handleCodeChange newCode s =
     (case feedback s of
        Some f \<Rightarrow> if success f then s\<lparr>userCode := newCode\<rparr>
                  else s\<lparr>userCode := newCode, feedback := None\<rparr>
      | None \<Rightarrow> s\<lparr>userCode := newCode, feedback := None\<rparr>)"

text \<open>A run of edits, one \<open>handleCodeChange\<close> per edit, from left to right.\<close>

fun edits :: "string list \<Rightarrow> LevelViewState \<Rightarrow> LevelViewState" where
  "edits [] s = s"
| "edits (c # cs) s = edits cs (handleCodeChange c s)"

section \<open>Structural markup validator (validateHTMLStructure)\<close>

text \<open>
  An expected text or attribute value is a string or a regular expression. Of a
  regular expression the validators use \<open>test\<close> and \<open>source\<close>; the model takes \<open>test\<close>
  as a predicate on strings (an expression without the \<open>g\<close> and \<open>y\<close> flags, whose
  \<open>test\<close> keeps no state).
\<close>

datatype StringOrRegExp = Str string | RegExp "string \<Rightarrow> bool" string

text \<open>
  The browser's \<open>DOMParser\<close> and selector engine are not code of the repository. The
  validator reads the parsed document only through \<open>querySelectorAll\<close>, and an element
  only through \<open>textContent\<close> and \<open>getAttribute\<close>, so a document is the function from
  a selector to the elements it matches, in document order; \<open>Inl\<close> carries the message
  of the error that \<open>querySelectorAll\<close> throws on a selector it cannot read. The parser
  is a parameter of the validator.
\<close>

record Element =
  textContent :: "string option"
  getAttribute :: "string \<Rightarrow> string option"

type_synonym Document = "string \<Rightarrow> string + Element list"

text \<open>\<open>count\<close> is a JavaScript number; the model takes the integers.\<close>

record ElementExpectation =
  tag :: string
  textExp :: "StringOrRegExp option"
  attributes :: "(string \<times> StringOrRegExp) list option"
  count :: "int option"
  parentSelector :: "string option"

subsection \<open>String primitives\<close>

definition digit_char :: "nat \<Rightarrow> char" where
  "digit_char d = ''0123456789'' ! d"

text \<open>The decimal digits of a number, most significant first, in front of \<open>acc\<close>.\<close>

function decimalDigits :: "nat \<Rightarrow> string \<Rightarrow> string" where
  "decimalDigits n acc =
     (if n < 10 then digit_char n # acc
      else decimalDigits (n div 10) (digit_char (n mod 10) # acc))"
  by pat_completeness auto
termination
  by (relation "measure fst") auto

declare decimalDigits.simps [simp del]

text \<open>A number in a template string.\<close>

definition numberToString :: "int \<Rightarrow> string" where
  "numberToString i =
     (if 0 \<le> i then decimalDigits (nat i) [] else CHR ''-'' # decimalDigits (nat (- i)) [])"

fun startsWith :: "string \<Rightarrow> string \<Rightarrow> bool" where
  "startsWith s [] = True"
| "startsWith [] (p # ps) = False"
| "startsWith (c # cs) (p # ps) = (c = p \<and> startsWith cs ps)"

text \<open>\<open>s.includes(sub)\<close>\<close>

fun includesStr :: "string \<Rightarrow> string \<Rightarrow> bool" where
  "includesStr [] sub = (sub = [])"
| "includesStr (c # cs) sub = (startsWith (c # cs) sub \<or> includesStr cs sub)"

text \<open>A template string prints \<open>null\<close> for a missing attribute.\<close>

definition show_nullable :: "string option \<Rightarrow> string" where
  "show_nullable v = (case v of None \<Rightarrow> ''null'' | Some s \<Rightarrow> s)"

definition failure :: "string \<Rightarrow> ValidationResult" where
  "failure msg = \<lparr>success = False, message = msg, updatedProjectCode = None\<rparr>"

subsection \<open>The validator\<close>

text \<open>\<open>el.parentSelector ? ... : ...\<close>: a parent selector that is given and not empty.\<close>

definition hasParent :: "ElementExpectation \<Rightarrow> bool" where
  "hasParent el = (case parentSelector el of None \<Rightarrow> False | Some p \<Rightarrow> p \<noteq> [])"

definition selectorOf :: "ElementExpectation \<Rightarrow> string" where
  "selectorOf el =
     (if hasParent el then the (parentSelector el) @ '' > '' @ tag el else tag el)"

definition insideText :: "ElementExpectation \<Rightarrow> string" where
  "insideText el = (if hasParent el then '' inside '' @ the (parentSelector el) else [])"

definition countMessage :: "ElementExpectation \<Rightarrow> int \<Rightarrow> nat \<Rightarrow> string" where
  "countMessage el c found =
     ''Expected '' @ numberToString c @ '' <'' @ tag el @ ''> element(s)'' @ insideText el
       @ '', but found '' @ numberToString (int found) @ ''.''"

definition missingMessage :: "ElementExpectation \<Rightarrow> string" where
  "missingMessage el = ''Missing <'' @ tag el @ ''> element'' @ insideText el @ ''.''"

text \<open>The check of \<open>el.text\<close> against the first element; \<open>None\<close> when it passes.\<close>

definition checkText :: "ElementExpectation \<Rightarrow> Element \<Rightarrow> ValidationResult option" where
  "checkText el firstElement =
     (let content = (case textContent firstElement of None \<Rightarrow> [] | Some s \<Rightarrow> s) in
      case textExp el of
        None \<Rightarrow> None
      | Some (RegExp test source) \<Rightarrow>
          if \<not> test content
          then Some (failure (''<'' @ tag el @ ''> element text does not match pattern. Found: ''
                      @ dquote @ content @ dquote))
          else None
      | Some (Str t) \<Rightarrow>
          if t = [] then None
          else if \<not> includesStr content t
          then Some (failure (''<'' @ tag el @ ''> element should contain text: '' @ dquote @ t
                      @ dquote @ ''. Found: '' @ dquote @ content @ dquote))
          else None)"

text \<open>The \<open>for (const attr in el.attributes)\<close> loop; \<open>None\<close> when every attribute passes.\<close>

fun checkAttributes ::
  "ElementExpectation \<Rightarrow> Element \<Rightarrow> (string \<times> StringOrRegExp) list \<Rightarrow> ValidationResult option"
  where
  "checkAttributes el firstElement [] = None"
| "checkAttributes el firstElement ((attr, expectedValue) # rest) =
     (let actualValue = getAttribute firstElement attr in
      case expectedValue of
        RegExp test source \<Rightarrow>
          if (case actualValue of None \<Rightarrow> True | Some v \<Rightarrow> \<not> test v)
          then Some (failure (''<'' @ tag el @ ''> element attribute '' @ squote @ attr @ squote
                      @ '' value '' @ dquote @ show_nullable actualValue @ dquote
                      @ '' does not match pattern.''))
          else checkAttributes el firstElement rest
      | Str expected \<Rightarrow>
          if actualValue \<noteq> Some expected
          then Some (failure (''<'' @ tag el @ ''> element attribute '' @ squote @ attr @ squote
                      @ '' should be '' @ squote @ expected @ squote @ ''. Found '' @ squote
                      @ show_nullable actualValue @ squote @ ''.''))
          else checkAttributes el firstElement rest)"

text \<open>
  The body of the loop over the expectations, on the elements the selector matched;
  \<open>None\<close> when the loop goes on to the next expectation. \<open>!el.count\<close> holds for a
  count that is not given and for the count 0.
\<close>

definition checkElement ::
  "ElementExpectation \<Rightarrow> Element list \<Rightarrow> ValidationResult option" where
  "checkElement el elements =
     (if (case count el of None \<Rightarrow> False | Some c \<Rightarrow> int (length elements) \<noteq> c)
      then Some (failure (countMessage el (the (count el)) (length elements)))
      else if (case count el of None \<Rightarrow> True | Some c \<Rightarrow> c = 0) \<and> length elements = 0
              \<and> tag el \<noteq> ''!--''
      then Some (failure (missingMessage el))
      else
        (case elements of
           [] \<Rightarrow> None
         | firstElement # _ \<Rightarrow>
             (case checkText el firstElement of
                Some r \<Rightarrow> Some r
              | None \<Rightarrow>
                  (case attributes el of
                     None \<Rightarrow> None
                   | Some attrs \<Rightarrow> checkAttributes el firstElement attrs))))"

fun checkExpectations :: "Document \<Rightarrow> ElementExpectation list \<Rightarrow> ValidationResult" where
  "checkExpectations doc [] =
     \<lparr>success = True, message = ''HTML structure looks good!'', updatedProjectCode = None\<rparr>"
| "checkExpectations doc (el # rest) =
     (case doc (selectorOf el) of
        Inl err \<Rightarrow> failure (''Error parsing HTML: '' @ err)
      | Inr elements \<Rightarrow>
          (case checkElement el elements of
             Some r \<Rightarrow> r
           | None \<Rightarrow> checkExpectations doc rest))"

definition validateHTMLStructure ::
  "(string \<Rightarrow> Document) \<Rightarrow> string \<Rightarrow> ElementExpectation list \<Rightarrow> ValidationResult" where
  "validateHTMLStructure parseFromString code expectedElements =
     checkExpectations (parseFromString code) expectedElements"

text \<open>An expectation that gives only a tag, and the document that matches nothing.\<close>

definition expectTag :: "string \<Rightarrow> ElementExpectation" where
  "expectTag t =
     \<lparr>tag = t, textExp = None, attributes = None, count = None, parentSelector = None\<rparr>"

definition emptyDocument :: Document where
  "emptyDocument = (\<lambda>sel. Inr [])"

definition plainElement :: Element where
  "plainElement = \<lparr>textContent = Some [], getAttribute = (\<lambda>a. None)\<rparr>"

text \<open>An expectation with the count 0 for a tag other than the comment marker.\<close>

definition zeroCount :: "ElementExpectation \<Rightarrow> bool" where
  "zeroCount el = (count el = Some 0 \<and> tag el \<noteq> ''!--'')"

text \<open>The expectations of task 1.1 of the catalog.\<close>

definition task_1_1 :: "ElementExpectation list" where
  "task_1_1 =
     [expectTag ''html'',
      (expectTag ''head'')\<lparr>parentSelector := Some ''html''\<rparr>,
      (expectTag ''body'')\<lparr>parentSelector := Some ''html''\<rparr>]"


text \<open>
  A parser that builds, for every text, a document with an \<open>html\<close> element and its
  \<open>head\<close> and \<open>body\<close> children, and nothing else.
\<close>

definition skeletonParser :: "string \<Rightarrow> Document" where
  "skeletonParser code =
     (\<lambda>sel. if sel = ''html'' \<or> sel = ''html > head'' \<or> sel = ''html > body''
            then Inr [plainElement] else Inr [])"

text \<open>An expectation passes on a document.\<close>

definition expectationPasses :: "Document \<Rightarrow> ElementExpectation \<Rightarrow> bool" where
  "expectationPasses doc el =
     (case doc (selectorOf el) of
        Inl err \<Rightarrow> False
      | Inr elements \<Rightarrow> checkElement el elements = None)"


subsection \<open>The markup validator in the words of the specification\<close>

text \<open>A text between single quotes, and between double quotes.\<close>

definition quoted :: "string \<Rightarrow> string" where
  "quoted s = CHR 0x27 # s @ [CHR 0x27]"


definition present :: "'a option \<Rightarrow> bool" where
  "present x = (case x of None \<Rightarrow> False | Some y \<Rightarrow> True)"















text \<open>
  A parsed page: two \<open>h1\<close> elements, the first with the class \<open>title\<close>, one \<open>p\<close> child of
  \<open>body\<close>, and nothing else; the selector engine does not read the selector \<open>!--\<close>.
\<close>

definition heading :: Element where
  "heading =
     \<lparr>textContent = Some ''Hello World'',
      getAttribute = (\<lambda>a. if a = ''class'' then Some ''title'' else None)\<rparr>"



section \<open>Structural style validator (validateCSSProperties)\<close>

text \<open>
  A character of the style text is a UTF-16 code unit below 256 (the type \<^typ>\<open>char\<close>
  has no others); on these, white space and lower case are those of JavaScript.
\<close>

text \<open>
  The properties of an expectation are the entries of the object, in the order in which
  \<open>for (const prop in style.properties)\<close> enumerates them.
\<close>

record StyleExpectation =
  selector :: string
  properties :: "(string \<times> StringOrRegExp) list"

subsection \<open>String primitives\<close>

text \<open>The index of the first occurrence of \<open>needle\<close> in \<open>s\<close>, or -1.\<close>

fun firstOccurrence :: "string \<Rightarrow> string \<Rightarrow> int" where
  "firstOccurrence [] needle = (if needle = [] then 0 else - 1)"
| "firstOccurrence (c # cs) needle =
     (if startsWith (c # cs) needle then 0
      else (let r = firstOccurrence cs needle in if r < 0 then - 1 else r + 1))"

text \<open>\<open>s.indexOf(needle, fromIndex)\<close>: the start is clamped to the string.\<close>

definition indexOf :: "string \<Rightarrow> string \<Rightarrow> int \<Rightarrow> int" where
  "indexOf s needle fromIndex =
     (let k = nat (min (max fromIndex 0) (int (length s)));
          r = firstOccurrence (drop k s) needle
      in if r < 0 then - 1 else r + int k)"

text \<open>\<open>s.substring(a, b)\<close>: both ends are clamped to the string, and swapped when \<open>a > b\<close>.\<close>

definition substring :: "string \<Rightarrow> int \<Rightarrow> int \<Rightarrow> string" where
  "substring s a b =
     (let a' = nat (min (max a 0) (int (length s)));
          b' = nat (min (max b 0) (int (length s)));
          lo = min a' b'; hi = max a' b'
      in take (hi - lo) (drop lo s))"

text \<open>
  The characters that \<open>\s\<close> matches and \<open>trim\<close> removes: tab, line feed, vertical tab,
  form feed, carriage return, space and the no-break space U+00A0.
\<close>

definition isWhiteSpace :: "char \<Rightarrow> bool" where
  "isWhiteSpace c =
     (c \<in> set [CHR 0x09, CHR 0x0A, CHR 0x0B, CHR 0x0C, CHR 0x0D, CHR 0x20, CHR 0xA0])"

definition trim :: "string \<Rightarrow> string" where
  "trim s = rev (dropWhile isWhiteSpace (rev (dropWhile isWhiteSpace s)))"

text \<open>
  The lower case of a code unit below 256: the letters \<open>A\<close> to \<open>Z\<close>, and U+00C0 to U+00DE
  but for the multiplication sign U+00D7, move up by 32.
\<close>

definition lowerChar :: "char \<Rightarrow> char" where
  "lowerChar c =
     (let n = (of_char c :: nat) in
      if (65 \<le> n \<and> n \<le> 90) \<or> (192 \<le> n \<and> n \<le> 222 \<and> n \<noteq> 215)
      then char_of (n + 32) else c)"

definition toLowerCase :: "string \<Rightarrow> string" where
  "toLowerCase s = map lowerChar s"

subsection \<open>The regular expression \<open>prop\s*:\s*([^;]+)\<close>\<close>

text \<open>
  The source builds the expression from the name of the property as it is written. A
  name without the syntax characters of regular expressions stands for itself; for any
  other name the model gives no answer (\<open>NotModelled\<close> below).
\<close>

definition isSyntaxCharacter :: "char \<Rightarrow> bool" where
  "isSyntaxCharacter c =
     (c \<in> set [CHR ''^'', CHR ''$'', CHR 0x5C, CHR ''.'', CHR ''*'', CHR ''+'', CHR ''?'',
               CHR ''('', CHR '')'', CHR ''['', CHR '']'', CHR ''{'', CHR ''}'', CHR ''|''])"

definition literalName :: "string \<Rightarrow> bool" where
  "literalName name = (\<not> list_ex isSyntaxCharacter name)"

text \<open>
  The group after the colon. \<open>\s*\<close> takes all the white space, and the group takes the
  characters up to the next semicolon. When nothing is left for the group, \<open>\s*\<close> gives
  back its last character, which the group takes; with no white space to give back
  there is no match.
\<close>

definition captureValue :: "string \<Rightarrow> string option" where
  "captureValue afterColon =
     (let ws = takeWhile isWhiteSpace afterColon;
          v = takeWhile (\<lambda>c. c \<noteq> CHR '';'') (dropWhile isWhiteSpace afterColon)
      in if v \<noteq> [] then Some v
         else if ws \<noteq> [] then Some [last ws]
         else None)"

text \<open>A match that starts at the first character of \<open>s\<close>.\<close>

definition matchAt :: "string \<Rightarrow> string \<Rightarrow> string option" where
  "matchAt s prop =
     (if startsWith s prop then
        (case dropWhile isWhiteSpace (drop (length prop) s) of
           [] \<Rightarrow> None
         | c # afterColon \<Rightarrow> if c = CHR '':'' then captureValue afterColon else None)
      else None)"

text \<open>\<open>ruleContent.match(propRegex)\<close> for a literal name: the group of the leftmost match.\<close>

fun matchProp :: "string \<Rightarrow> string \<Rightarrow> string option" where
  "matchProp [] prop = matchAt [] prop"
| "matchProp (c # cs) prop =
     (case matchAt (c # cs) prop of
        Some v \<Rightarrow> Some v
      | None \<Rightarrow> matchProp cs prop)"

subsection \<open>The validator\<close>

definition notFoundMessage :: "string \<Rightarrow> string" where
  "notFoundMessage sel = ''CSS rule for selector '' @ squote @ sel @ squote @ '' not found.''"

definition bracesMessage :: "string \<Rightarrow> string" where
  "bracesMessage sel =
     ''Could not find opening or closing braces for CSS rule '' @ squote @ sel @ squote @ ''.''"

definition propertyNotFoundMessage :: "string \<Rightarrow> string \<Rightarrow> string" where
  "propertyNotFoundMessage prop sel =
     ''Property '' @ squote @ prop @ squote @ '' not found for selector '' @ squote @ sel
       @ squote @ ''.''"

definition mismatchMessage :: "string \<Rightarrow> string \<Rightarrow> StringOrRegExp \<Rightarrow> string \<Rightarrow> string" where
  "mismatchMessage prop sel expected actualValue =
     (case expected of
        RegExp test source \<Rightarrow>
          ''Property '' @ squote @ prop @ squote @ '' for '' @ squote @ sel @ squote
            @ '' has value '' @ squote @ actualValue @ squote
            @ '', which does not match pattern '' @ squote @ source @ squote @ ''.''
      | Str v \<Rightarrow>
          ''Property '' @ squote @ prop @ squote @ '' for '' @ squote @ sel @ squote
            @ '' should be '' @ squote @ v @ squote @ '', but found '' @ squote @ actualValue
            @ squote @ ''.'')"

text \<open>A pattern must match the value; a string must be the value, letter case aside.\<close>

definition valueMatches :: "StringOrRegExp \<Rightarrow> string \<Rightarrow> bool" where
  "valueMatches expected actualValue =
     (case expected of
        RegExp test source \<Rightarrow> test actualValue
      | Str v \<Rightarrow> toLowerCase actualValue = toLowerCase v)"

text \<open>
  The \<open>for (const prop in style.properties)\<close> loop: \<open>Continue\<close> when every property
  passes, \<open>Return\<close> with the failure of the first that does not, \<open>NotModelled\<close> when
  the loop comes to a name that is not literal.
\<close>

datatype css_step = Continue | Return ValidationResult | NotModelled

fun checkProperties ::
  "string \<Rightarrow> string \<Rightarrow> (string \<times> StringOrRegExp) list \<Rightarrow> css_step" where
  "checkProperties sel ruleContent [] = Continue"
| "checkProperties sel ruleContent ((prop, expected) # rest) =
     (if \<not> literalName prop then NotModelled
      else
        (case matchProp ruleContent prop of
           None \<Rightarrow> Return (failure (propertyNotFoundMessage prop sel))
         | Some captured \<Rightarrow>
             if captured = [] then Return (failure (propertyNotFoundMessage prop sel))
             else
               (let actualValue = trim captured in
                if \<not> valueMatches expected actualValue
                then Return (failure (mismatchMessage prop sel expected actualValue))
                else checkProperties sel ruleContent rest)))"

text \<open>
  The text between the first \<open>{\<close> at or after the first occurrence of the selector and
  the first \<open>}\<close> after that brace; \<open>Inl\<close> is the failure of the search.
\<close>

definition ruleContentOf :: "string \<Rightarrow> string \<Rightarrow> ValidationResult + string" where
  "ruleContentOf code sel =
     (let selectorIndex = indexOf code sel 0 in
      if selectorIndex = - 1 then Inl (failure (notFoundMessage sel))
      else
        (let ruleStartIndex = indexOf code ''{'' selectorIndex;
             ruleEndIndex = indexOf code ''}'' ruleStartIndex
         in if ruleStartIndex = - 1 \<or> ruleEndIndex = - 1
            then Inl (failure (bracesMessage sel))
            else Inr (substring code (ruleStartIndex + 1) ruleEndIndex)))"

text \<open>The validator; \<open>None\<close> when a name on its way is not literal.\<close>

fun validateCSSProperties :: "string \<Rightarrow> StyleExpectation list \<Rightarrow> ValidationResult option" where
  "validateCSSProperties code [] =
     Some \<lparr>success = True, message = ''CSS styles look correct!'', updatedProjectCode = None\<rparr>"
| "validateCSSProperties code (style # rest) =
     (case ruleContentOf code (selector style) of
        Inl r \<Rightarrow> Some r
      | Inr ruleContent \<Rightarrow>
          (case checkProperties (selector style) ruleContent (properties style) of
             Return r \<Rightarrow> Some r
           | NotModelled \<Rightarrow> None
           | Continue \<Rightarrow> validateCSSProperties code rest))"

text \<open>The expectation of the catalog's task on the colour of \<open>h1\<close>.\<close>

definition h1_red :: "StyleExpectation list" where
  "h1_red = [\<lparr>selector = ''h1'', properties = [(''color'', Str ''red'')]\<rparr>]"

subsection \<open>The style validator in the words of the specification\<close>

text \<open>
  The first occurrence of a string in a text: the least index at which the text goes
  on with the string.
\<close>

definition occursAt :: "string \<Rightarrow> string \<Rightarrow> nat \<Rightarrow> bool" where
  "occursAt s part i = (take (length part) (drop i s) = part)"

definition spec_firstOccurrence :: "string \<Rightarrow> string \<Rightarrow> nat option" where
  "spec_firstOccurrence s part = List.find (occursAt s part) [0..<Suc (length s)]"

text \<open>
  The brace-delimited block that follows the first occurrence of the selector: from
  there, the text after the next \<open>{\<close> and before the \<open>}\<close> that comes next.
\<close>

datatype located = NoSelector | NoBraces | Block string

definition spec_block :: "string \<Rightarrow> string \<Rightarrow> located" where
  "spec_block code sel =
     (case spec_firstOccurrence code sel of
        None \<Rightarrow> NoSelector
      | Some i \<Rightarrow>
          (case dropWhile (\<lambda>c. c \<noteq> CHR ''{'') (drop i code) of
             [] \<Rightarrow> NoBraces
           | brace # inside \<Rightarrow>
               if CHR ''}'' \<in> set inside then Block (takeWhile (\<lambda>c. c \<noteq> CHR ''}'') inside)
               else NoBraces))"

text \<open>
  The value of a property where the text starts with its name: after the name, white
  space and a colon, the text up to the next semicolon, trimmed; there is a value only
  when that text is not empty.
\<close>

definition spec_valueAt :: "string \<Rightarrow> string \<Rightarrow> string option" where
  "spec_valueAt name s =
     (if take (length name) s = name then
        (case dropWhile isWhiteSpace (drop (length name) s) of
           [] \<Rightarrow> None
         | c # afterColon \<Rightarrow>
             if c = CHR '':'' \<and> takeWhile (\<lambda>c. c \<noteq> CHR '';'') afterColon \<noteq> []
             then Some (trim (takeWhile (\<lambda>c. c \<noteq> CHR '';'') afterColon))
             else None)
      else None)"

text \<open>The value of a property in a block: the value at the leftmost place that has one.\<close>

definition spec_propertyValue :: "string \<Rightarrow> string \<Rightarrow> string option" where
  "spec_propertyValue block name =
     (case List.find (\<lambda>i. spec_valueAt name (drop i block) \<noteq> None) [0..<Suc (length block)] of
        None \<Rightarrow> None
      | Some i \<Rightarrow> spec_valueAt name (drop i block))"

text \<open>
  A literal expected value is compared without regard to letter case; a pattern must
  match the value.
\<close>

fun spec_accepts :: "StringOrRegExp \<Rightarrow> string \<Rightarrow> bool" where
  "spec_accepts (Str expected) v = (toLowerCase v = toLowerCase expected)"
| "spec_accepts (RegExp test source) v = test v"

text \<open>What can be wrong with one expectation, and the message that names it.\<close>

datatype css_failure =
  SelectorMissing
| BracesMissing
| PropertyMissing string
| ValueDiffers string StringOrRegExp string

fun spec_failureMessage :: "string \<Rightarrow> css_failure \<Rightarrow> string" where
  "spec_failureMessage sel SelectorMissing =
     ''CSS rule for selector '' @ quoted sel @ '' not found.''"
| "spec_failureMessage sel BracesMissing =
     ''Could not find opening or closing braces for CSS rule '' @ quoted sel @ ''.''"
| "spec_failureMessage sel (PropertyMissing name) =
     ''Property '' @ quoted name @ '' not found for selector '' @ quoted sel @ ''.''"
| "spec_failureMessage sel (ValueDiffers name (Str expected) v) =
     ''Property '' @ quoted name @ '' for '' @ quoted sel @ '' should be '' @ quoted expected
       @ '', but found '' @ quoted v @ ''.''"
| "spec_failureMessage sel (ValueDiffers name (RegExp test source) v) =
     ''Property '' @ quoted name @ '' for '' @ quoted sel @ '' has value '' @ quoted v
       @ '', which does not match pattern '' @ quoted source @ ''.''"

definition spec_propertyFailure :: "string \<Rightarrow> string \<times> StringOrRegExp \<Rightarrow> css_failure option" where
  "spec_propertyFailure block p =
     (case spec_propertyValue block (fst p) of
        None \<Rightarrow> Some (PropertyMissing (fst p))
      | Some v \<Rightarrow> if spec_accepts (snd p) v then None else Some (ValueDiffers (fst p) (snd p) v))"

text \<open>
  The failure of one expectation: the selector is missing, or its block, or else the
  first of its properties, in their order, that is missing or has another value.
\<close>

definition spec_styleFailure :: "string \<Rightarrow> StyleExpectation \<Rightarrow> css_failure option" where
  "spec_styleFailure code style =
     (case spec_block code (selector style) of
        NoSelector \<Rightarrow> Some SelectorMissing
      | NoBraces \<Rightarrow> Some BracesMissing
      | Block block \<Rightarrow>
          (case List.find (\<lambda>p. present (spec_propertyFailure block p)) (properties style) of
             None \<Rightarrow> None
           | Some p \<Rightarrow> spec_propertyFailure block p))"

text \<open>
  The answer: the failure of the first expectation, in the order given, that has one;
  success when none has.
\<close>

definition spec_validateCSS :: "string \<Rightarrow> StyleExpectation list \<Rightarrow> ValidationResult" where
  "spec_validateCSS code styles =
     (case List.find (\<lambda>style. present (spec_styleFailure code style)) styles of
        None \<Rightarrow>
          \<lparr>success = True, message = ''CSS styles look correct!'', updatedProjectCode = None\<rparr>
      | Some style \<Rightarrow>
          (case spec_styleFailure code style of
             None \<Rightarrow>
               \<lparr>success = True, message = ''CSS styles look correct!'', updatedProjectCode = None\<rparr>
           | Some f \<Rightarrow>
               \<lparr>success = False, message = spec_failureMessage (selector style) f,
                updatedProjectCode = None\<rparr>))"

text \<open>Every property name of the expectations is literal.\<close>

definition literalNames :: "StyleExpectation list \<Rightarrow> bool" where
  "literalNames styles =
     list_all (\<lambda>style. list_all (\<lambda>p. literalName (fst p)) (properties style)) styles"

text \<open>
  Expectations as the catalog writes them: a colour for \<open>p\<close>, and the pattern
  \<open>/10px.*/\<close> for the padding of \<open>p\<close>, which matches a value that contains \<open>10px\<close>.
\<close>

definition p_green :: StyleExpectation where
  "p_green = \<lparr>selector = ''p'', properties = [(''color'', Str ''green'')]\<rparr>"

definition p_padding :: StyleExpectation where
  "p_padding =
     \<lparr>selector = ''p'',
      properties = [(''padding'', RegExp (\<lambda>v. includesStr v ''10px'') ''10px.*'')]\<rparr>"

section \<open>Persistence (App: the initial state and the saving effect)\<close>

text \<open>
  The values of JavaScript that the stored progress is made of. A number is taken as
  an integer: the code only asks whether it is zero. A \<open>Set\<close> is the list of its
  members in insertion order; an object is the list of its properties.
\<close>

datatype jsval =
  JUndefined
| JNull
| JBool bool
| JNumber int
| JString string
| JArray "jsval list"
| JObject "(string \<times> jsval) list"
| JSet "jsval list"

datatype load_error = ThrowsTypeError | PropertyOnArray

subsection \<open>The progress store as a value\<close>

definition optionalField :: "string \<Rightarrow> string option \<Rightarrow> (string \<times> jsval) list" where
  "optionalField k v = (case v of None \<Rightarrow> [] | Some s \<Rightarrow> [(k, JString s)])"

definition projectCodeValue :: "ProjectCode \<Rightarrow> jsval" where
  "projectCodeValue pc =
     JObject (optionalField ''html'' (html pc) @ optionalField ''css'' (css pc)
              @ optionalField ''js'' (js pc))"

definition progressValue :: "LevelProgress \<Rightarrow> jsval" where
  "progressValue p =
     JObject [(''completedTasks'', JSet (map JString (completedTasks p))),
              (''currentProjectCode'', projectCodeValue (currentProjectCode p)),
              (''isCompleted'', JBool (isCompleted p))]"

definition storeValue :: "UserProgress \<Rightarrow> jsval" where
  "storeValue up = JObject (map (\<lambda>(levelId, p). (levelId, progressValue p)) up)"

subsection \<open>Saving\<close>

text \<open>
  \<open>JSON.stringify(value, replacer)\<close> read back by \<open>JSON.parse\<close>: the tree of the text.
  The replacer turns a \<open>Set\<close> into the array of its members. A property whose value
  is \<open>undefined\<close> is left out, and \<open>undefined\<close> in an array is written \<open>null\<close>; \<open>None\<close> is
  the \<open>undefined\<close> that \<open>stringify\<close> returns for \<open>undefined\<close>.
\<close>

fun toJSON :: "jsval \<Rightarrow> jsval option" where
  "toJSON JUndefined = None"
| "toJSON JNull = Some JNull"
| "toJSON (JBool b) = Some (JBool b)"
| "toJSON (JNumber n) = Some (JNumber n)"
| "toJSON (JString s) = Some (JString s)"
| "toJSON (JArray xs) =
     Some (JArray (map (\<lambda>x. case toJSON x of None \<Rightarrow> JNull | Some j \<Rightarrow> j) xs))"
| "toJSON (JSet xs) =
     Some (JArray (map (\<lambda>x. case toJSON x of None \<Rightarrow> JNull | Some j \<Rightarrow> j) xs))"
| "toJSON (JObject kvs) =
     Some (JObject (concat (map (\<lambda>(k, v). case toJSON v of None \<Rightarrow> [] | Some j \<Rightarrow> [(k, j)])
                             kvs)))"

text \<open>What the saving effect leaves in local storage, as \<open>JSON.parse\<close> reads it.\<close>

definition savedProgress :: "UserProgress \<Rightarrow> jsval option" where
  "savedProgress up = toJSON (storeValue up)"

subsection \<open>Loading\<close>

text \<open>The value as a condition; \<open>None\<close> is a property that is not there.\<close>

fun truthy :: "jsval option \<Rightarrow> bool" where
  "truthy None = False"
| "truthy (Some JUndefined) = False"
| "truthy (Some JNull) = False"
| "truthy (Some (JBool b)) = b"
| "truthy (Some (JNumber n)) = (n \<noteq> 0)"
| "truthy (Some (JString s)) = (s \<noteq> [])"
| "truthy (Some (JArray xs)) = True"
| "truthy (Some (JObject kvs)) = True"
| "truthy (Some (JSet xs)) = True"

text \<open>
  The equality of \<open>Set\<close> members: primitive values by value, objects by identity (two
  objects read from the text are never the same object).
\<close>

fun sameValueZero :: "jsval \<Rightarrow> jsval \<Rightarrow> bool" where
  "sameValueZero (JArray xs) b = False"
| "sameValueZero (JObject kvs) b = False"
| "sameValueZero (JSet xs) b = False"
| "sameValueZero a b = (a = b)"

definition jsSetAdd :: "jsval list \<Rightarrow> jsval \<Rightarrow> jsval list" where
  "jsSetAdd members x = (if list_ex (sameValueZero x) members then members else members @ [x])"

text \<open>\<open>new Set(array)\<close>\<close>

definition newSet :: "jsval list \<Rightarrow> jsval list" where
  "newSet xs = foldl jsSetAdd [] xs"

text \<open>
  The body of the \<open>forEach\<close> on one entry \<open>parsed[levelId]\<close>. Reading a property of
  \<open>null\<close> throws, and so does storing one on a primitive value in module code.
\<close>

fun restoreEntry :: "jsval \<Rightarrow> load_error + jsval" where
  "restoreEntry (JObject props) =
     (let stored = map_of props ''completedTasks'' in
      if truthy stored \<and> (case stored of Some (JSet members) \<Rightarrow> False | _ \<Rightarrow> True) then
        (case stored of
           Some (JArray xs) \<Rightarrow>
             Inr (JObject (AList.update ''completedTasks'' (JSet (newSet xs)) props))
         | _ \<Rightarrow> Inr (JObject (AList.update ''completedTasks'' (JSet []) props)))
      else if \<not> truthy stored then
        Inr (JObject (AList.update ''completedTasks'' (JSet []) props))
      else Inr (JObject props))"
| "restoreEntry (JArray xs) = Inl PropertyOnArray"
| "restoreEntry (JSet xs) = Inl PropertyOnArray"
| "restoreEntry v = Inl ThrowsTypeError"

fun restoreEntries :: "(string \<times> jsval) list \<Rightarrow> load_error + (string \<times> jsval) list" where
  "restoreEntries [] = Inr []"
| "restoreEntries ((levelId, v) # rest) =
     (case restoreEntry v of
        Inl e \<Rightarrow> Inl e
      | Inr v' \<Rightarrow>
          (case restoreEntries rest of
             Inl e \<Rightarrow> Inl e
           | Inr rest' \<Rightarrow> Inr ((levelId, v') # rest')))"

text \<open>
  The initial \<open>userProgress\<close>, from what \<open>JSON.parse\<close> reads in local storage (\<open>None\<close>
  when nothing is stored). The stored text of the application is an object; the
  other values are outside the model, but for \<open>null\<close>, whose keys cannot be listed.
\<close>

fun loadProgress :: "jsval option \<Rightarrow> load_error + jsval" where
  "loadProgress None = Inr (JObject [])"
| "loadProgress (Some (JObject entries)) =
     (case restoreEntries entries of Inl e \<Rightarrow> Inl e | Inr entries' \<Rightarrow> Inr (JObject entries'))"
| "loadProgress (Some JNull) = Inl ThrowsTypeError"
| "loadProgress (Some v) = Inl PropertyOnArray"

definition setsDistinct :: "UserProgress \<Rightarrow> bool" where
  "setsDistinct up = list_all (\<lambda>(levelId, p). distinct (completedTasks p)) up"

definition demo_store :: UserProgress where
  "demo_store =
     [(''1'', \<lparr>completedTasks = [''1.1'', ''1.2''],
              currentProjectCode = \<lparr>html = Some ''<h1>Hi</h1>'', css = None, js = None\<rparr>,
              isCompleted = True\<rparr>),
      (''2'', \<lparr>completedTasks = [], currentProjectCode = emptyProjectCode,
              isCompleted = False\<rparr>)]"

text \<open>The entry that is written for the progress of one level.\<close>

definition savedEntry :: "LevelProgress \<Rightarrow> jsval" where
  "savedEntry p =
     JObject [(''completedTasks'', JArray (map JString (completedTasks p))),
              (''currentProjectCode'', projectCodeValue (currentProjectCode p)),
              (''isCompleted'', JBool (isCompleted p))]"

text \<open>A \<open>completedTasks\<close> property that is neither an array nor a \<open>Set\<close>, or is missing.\<close>

definition malformedTasks :: "(string \<times> jsval) list \<Rightarrow> bool" where
  "malformedTasks props =
     (case map_of props ''completedTasks'' of
        Some (JArray xs) \<Rightarrow> False
      | Some (JSet members) \<Rightarrow> False
      | _ \<Rightarrow> True)"


section \<open>Level session (LevelView: the effects and handleSubmitCode)\<close>

text \<open>
  Of the code of a task the session uses the starter code and the validator. The
  starter code is a function of the project code (a constant one where the catalog
  gives a text, the empty text where it gives none).
\<close>

record TaskCode =
  starterCode :: "ProjectCode \<Rightarrow> string"
  validate :: "string \<Rightarrow> ProjectCode \<Rightarrow> ValidationResult"

text \<open>\<open>level.tasks[currentTaskIndex]\<close>\<close>

definition currentTask :: "Level \<Rightarrow> LevelViewState \<Rightarrow> Task option" where
  "currentTask level v = at_index (tasks level) (int (currentTaskIndex v))"

text \<open>
  The effect on \<open>[level, userProgress]\<close>, where \<open>userProgress\<close> is the progress of the
  level that the App hands down: the current task becomes the first one that is not
  completed, and the project code the stored one.
\<close>

definition progressEffect :: "Level \<Rightarrow> LevelProgress \<Rightarrow> LevelViewState \<Rightarrow> LevelViewState" where
  "progressEffect level levelProgress v =
     (let firstUncompletedIndex =
            findIndex (\<lambda>task. task_id task \<notin> set (completedTasks levelProgress)) (tasks level)
      in v\<lparr>currentTaskIndex :=
             (if 0 \<le> firstUncompletedIndex then nat firstUncompletedIndex
              else length (tasks level)),
           projectCode := currentProjectCode levelProgress\<rparr>)"

text \<open>
  The effect on \<open>[currentTask, projectCode]\<close>: when there is a current task, the editor
  takes its starter code and the feedback is cleared.
\<close>

definition taskEffect :: "(Task \<Rightarrow> TaskCode) \<Rightarrow> Level \<Rightarrow> LevelViewState \<Rightarrow> LevelViewState" where
  "taskEffect code level v =
     (case currentTask level v of
        None \<Rightarrow> v
      | Some task \<Rightarrow>
          v\<lparr>userCode := starterCode (code task) (projectCode v), feedback := None\<rparr>)"

text \<open>
  The two callbacks that \<open>handleSubmitCode\<close> gives to \<open>setTimeout\<close> with a delay of 1500
  ms: after the last task, \<open>onCompleteLevel(level.id, updatedProjectCode)\<close> and
  \<open>setIsSubmitting(false)\<close>; after another task, \<open>setFeedback(null)\<close> and
  \<open>setIsSubmitting(false)\<close>.
\<close>

datatype timer = CompleteLevelTimer ProjectCode | NextTaskTimer

text \<open>
  A session: the progress store of the App, the state of the LevelView, and the
  callbacks that are scheduled and have not run yet.
\<close>

record LevelSession =
  store :: UserProgress
  view :: LevelViewState
  timers :: "timer list"

text \<open>
  The progress that the App hands to the LevelView:
  \<open>userProgress[currentLevelId] || { completedTasks: new Set(), currentProjectCode: {}, isCompleted: false }\<close>
\<close>

definition levelProgressOf :: "Level \<Rightarrow> LevelSession \<Rightarrow> LevelProgress" where
  "levelProgressOf level s = progressOrDefault (store s) (level_id level)"

text \<open>
  \<open>handleSubmitCode\<close>, with \<open>onTaskComplete\<close> the \<open>updateTaskProgress\<close> of the App: the
  state after the handler has run, before the next render.
\<close>

definition handleSubmitCode ::
  "Level list \<Rightarrow> (Task \<Rightarrow> TaskCode) \<Rightarrow> Level \<Rightarrow> LevelSession \<Rightarrow> LevelSession" where
  "handleSubmitCode LEVELS code level s =
     (case currentTask level (view s) of
        None \<Rightarrow> s
      | Some task \<Rightarrow>
          if isSubmitting (view s) then s
          else
            (let result = validate (code task) (userCode (view s)) (projectCode (view s)) in
             if success result then
               (let updated = (case updatedProjectCode result of
                                 Some pc \<Rightarrow> pc
                               | None \<Rightarrow> projectCode (view s))
                in s\<lparr>store := updateTaskProgress LEVELS (level_id level) (task_id task)
                                (Some updated) (store s),
                      view := (view s)\<lparr>isSubmitting := True, feedback := Some result,
                                       projectCode := updated\<rparr>,
                      timers := timers s @
                        [if int (length (tasks level)) - 1 \<le> int (currentTaskIndex (view s))
                            \<or> length (completedTasks (levelProgressOf level s)) + 1
                                = length (tasks level)
                         then CompleteLevelTimer updated else NextTaskTimer]\<rparr>)
             else s\<lparr>view := (view s)\<lparr>isSubmitting := False, feedback := Some result\<rparr>\<rparr>))"

text \<open>An edit in a session.\<close>

definition editCode :: "string \<Rightarrow> LevelSession \<Rightarrow> LevelSession" where
  "editCode newCode s = s\<lparr>view := handleCodeChange newCode (view s)\<rparr>"

subsection \<open>Level 1 of the catalog\<close>

definition level_1 :: Level where
  "level_1 =
     \<lparr>level_id = ''1'', title = ''Intro: What is HTML?'',
      tasks = [\<lparr>task_id = ''1.1''\<rparr>, \<lparr>task_id = ''1.2''\<rparr>, \<lparr>task_id = ''1.3''\<rparr>],
      unlocksNextLevel = Some ''2''\<rparr>"

text \<open>\<open>pc?.html || text\<close>\<close>

definition htmlOr :: "string \<Rightarrow> ProjectCode \<Rightarrow> string" where
  "htmlOr fallback pc =
     (case html pc of None \<Rightarrow> fallback | Some h \<Rightarrow> if h = [] then fallback else h)"

definition starter_1_2 :: string where
  "starter_1_2 =
     ''<html>'' @ [CHR 0x0A] @ ''<head>'' @ [CHR 0x0A] @ ''  <!-- Add title here -->''
       @ [CHR 0x0A] @ ''</head>'' @ [CHR 0x0A] @ ''<body>'' @ [CHR 0x0A] @ ''</body>''
       @ [CHR 0x0A] @ ''</html>''"

definition starter_1_3 :: string where
  "starter_1_3 =
     ''<html>'' @ [CHR 0x0A] @ ''<head>'' @ [CHR 0x0A] @ ''  <title>My First Page</title>''
       @ [CHR 0x0A] @ ''</head>'' @ [CHR 0x0A] @ ''<body>'' @ [CHR 0x0A]
       @ ''  <!-- Add heading here -->'' @ [CHR 0x0A] @ ''</body>'' @ [CHR 0x0A] @ ''</html>''"

text \<open>The starter code and the validator of the tasks of level 1, by task identifier.\<close>

definition level_1_code :: "(string \<Rightarrow> Document) \<Rightarrow> Task \<Rightarrow> TaskCode" where
  "level_1_code parseFromString task =
     (if task_id task = ''1.1'' then
        \<lparr>starterCode = (\<lambda>pc. []),
         validate = (\<lambda>code pc. validateHTMLStructure parseFromString code task_1_1)\<rparr>
      else if task_id task = ''1.2'' then
        \<lparr>starterCode = htmlOr starter_1_2,
         validate = (\<lambda>code pc. validateHTMLStructure parseFromString code
           [(expectTag ''title'')\<lparr>textExp := Some (Str ''My First Page''),
                                  parentSelector := Some ''head''\<rparr>])\<rparr>
      else
        \<lparr>starterCode = htmlOr starter_1_3,
         validate = (\<lambda>code pc. validateHTMLStructure parseFromString code
           [(expectTag ''h1'')\<lparr>textExp := Some (Str ''Hello Guro!''),
                               parentSelector := Some ''body''\<rparr>])\<rparr>)"

text \<open>
  Level 1 opened for the first time: nothing is stored, the first task is the current
  one and the editor holds its starter code, the empty text.
\<close>

definition opened :: LevelSession where
  "opened =
     \<lparr>store = [],
      view = \<lparr>currentTaskIndex = 0, userCode = [], feedback = None,
              projectCode = emptyProjectCode, isSubmitting = False\<rparr>,
      timers = []\<rparr>"

text \<open>
  The learner types the document of task 1.1 and has it checked, with a parser that
  builds the three elements.
\<close>

definition submitted :: "Level list \<Rightarrow> LevelSession" where
  "submitted LEVELS =
     handleSubmitCode LEVELS (level_1_code skeletonParser) level_1
       (editCode ''<html><head></head><body></body></html>'' opened)"

text \<open>
  The render that follows: the progress of the level has changed, so the effect on it
  runs; the current task has changed then, so the effect on it runs in the next render.
\<close>

definition rendered :: "Level list \<Rightarrow> LevelViewState" where
  "rendered LEVELS =
     taskEffect (level_1_code skeletonParser) level_1
       (progressEffect level_1 (levelProgressOf level_1 (submitted LEVELS))
          (view (submitted LEVELS)))"

section \<open>The completion invariant of the progress store\<close>

lemma full_iff_length:
  assumes "distinct xs" "distinct ts" "set xs \<subseteq> set ts"
  shows "(set ts \<subseteq> set xs) = (length xs = length ts)"
proof
  assume "set ts \<subseteq> set xs"
  with assms(3) have "set xs = set ts" by blast
  then have "card (set xs) = card (set ts)" by simp
  with assms(1,2) show "length xs = length ts" by (simp add: distinct_card)
next
  assume "length xs = length ts"
  with assms(1,2) have "card (set xs) = card (set ts)" by (simp add: distinct_card)
  with assms(3) have "set xs = set ts" by (simp add: card_subset_eq)
  then show "set ts \<subseteq> set xs" by simp
qed

lemma findLevel_distinct:
  "distinct (map level_id LEVELS) \<Longrightarrow> L \<in> set LEVELS \<Longrightarrow> findLevel LEVELS (level_id L) = Some L"
  unfolding findLevel_def by (induction LEVELS) auto

lemma set_add_set: "set (set_add xs x) = insert x (set xs)"
  by (auto simp: set_add_def)

lemma set_add_distinct: "distinct xs \<Longrightarrow> distinct (set_add xs x)"
  by (simp add: set_add_def)

lemma progress_ok_update:
  assumes d: "distinct (task_ids L)" and t: "t \<in> set (task_ids L)"
    and p: "p = defaultProgress \<or> progress_ok L p"
  shows "progress_ok L
     (let u = p\<lparr>completedTasks := set_add (completedTasks p) t, currentProjectCode := c\<rparr>
      in if length (set_add (completedTasks p) t) = length (tasks L)
         then u\<lparr>isCompleted := True\<rparr> else u)"
proof -
  let ?xs = "completedTasks p" and ?ys = "set_add (completedTasks p) t"
  have dx: "distinct ?xs" and sx: "set ?xs \<subseteq> set (task_ids L)"
    using p by (auto simp: defaultProgress_def progress_ok_def)
  have dy: "distinct ?ys" and sy: "set ?ys \<subseteq> set (task_ids L)"
    using dx sx t by (simp_all add: set_add_distinct set_add_set)
  have len: "length (task_ids L) = length (tasks L)" by (simp add: task_ids_def)
  have K: "(set (task_ids L) \<subseteq> set ?ys) = (length ?ys = length (tasks L))"
    using full_iff_length[OF dy d sy] len by simp
  show ?thesis
  proof (cases "isCompleted p")
    case True
    with p have ok: "progress_ok L p" by (auto simp: defaultProgress_def)
    with True have "set (task_ids L) \<subseteq> set ?xs" by (simp add: progress_ok_def completion_ok_def)
    with t have "?ys = ?xs" by (auto simp: set_add_def)
    with ok True show ?thesis by (simp add: progress_ok_def completion_ok_def Let_def)
  next
    case False
    then show ?thesis using K dy sy
      by (simp add: progress_ok_def completion_ok_def Let_def)
  qed
qed


lemma store_ok_step:
  assumes c: "catalog_ok LEVELS" and s: "store_ok LEVELS s" and a: "admissible LEVELS s m"
  shows "store_ok LEVELS (apply_mutation LEVELS m s)"
  unfolding store_ok_def list_all_iff
proof
  fix L assume L: "L \<in> set LEVELS"
  have dl: "distinct (map level_id LEVELS)" and dt: "distinct (task_ids L)"
    using c L by (auto simp: catalog_ok_def list_all_iff)
  have fl: "findLevel LEVELS (level_id L) = Some L" by (rule findLevel_distinct[OF dl L])
  have old: "case map_of s (level_id L) of None \<Rightarrow> True | Some p \<Rightarrow> progress_ok L p"
    using s L by (simp add: store_ok_def list_all_iff)
  show "case map_of (apply_mutation LEVELS m s) (level_id L) of None \<Rightarrow> True
        | Some p \<Rightarrow> progress_ok L p"
  proof (cases m)
    case (UpdateTask l t pc)
    show ?thesis
    proof (cases "l = level_id L")
      case False
      with old UpdateTask show ?thesis
        by (simp add: updateTaskProgress_def Let_def update_conv')
    next
      case True
      from a UpdateTask True fl have t: "t \<in> set (task_ids L)" by simp
      have p: "progressOrDefault s l = defaultProgress \<or> progress_ok L (progressOrDefault s l)"
        using old True by (auto simp: progressOrDefault_def split: option.splits)
      from progress_ok_update[OF dt t p] UpdateTask True fl show ?thesis
        by (simp add: updateTaskProgress_def Let_def update_conv')
    qed
  next
    case (CompleteLevel l pc)
    show ?thesis
    proof (cases "l = level_id L")
      case False
      with old CompleteLevel show ?thesis
        by (simp add: completeLevelProgress_def Let_def update_conv')
    next
      case True
      from a CompleteLevel True fl
      have full: "set (task_ids L) \<subseteq> set (completedTasks (progressOrDefault s l))" by simp
      show ?thesis
      proof (cases "map_of s l")
        case None
        with full have "task_ids L = []" by (simp add: progressOrDefault_def defaultProgress_def)
        then have "tasks L = []" by (simp add: task_ids_def)
        with None CompleteLevel True show ?thesis
          by (simp add: completeLevelProgress_def Let_def update_conv' progress_ok_def
              completion_ok_def task_ids_def)
      next
        case (Some p)
        with old True have ok: "progress_ok L p" by simp
        from full Some have f: "set (task_ids L) \<subseteq> set (completedTasks p)"
          by (simp add: progressOrDefault_def)
        from ok f have "isCompleted p" by (simp add: progress_ok_def completion_ok_def)
        with ok Some CompleteLevel True show ?thesis
          by (simp add: completeLevelProgress_def Let_def update_conv' progress_ok_def
              completion_ok_def)
      qed
    qed
  qed
qed

text \<open>
  Claim C1, as amended. In a catalog whose level identifiers are distinct and whose
  levels have distinct task identifiers, take a store in which every stored progress
  satisfies the completion invariant (the flag is up exactly when every task of the
  level is in the set, and exactly when the size of the set is the number of tasks) and
  holds only tasks of its level. After every run of mutations in which each
  \<open>updateTaskProgress\<close> names a task of its level and each \<open>completeLevel\<close> comes
  when every task of its level is already in the set, the store satisfies the same.
\<close>

theorem completion_invariant_preserved:
  "catalog_ok LEVELS \<Longrightarrow> store_ok LEVELS s \<Longrightarrow> admissible_run LEVELS ms s \<Longrightarrow>
   store_ok LEVELS (run_mutations LEVELS ms s)"
proof (induction ms arbitrary: s)
  case Nil
  then show ?case by simp
next
  case (Cons m ms)
  then show ?case using store_ok_step by simp
qed

text \<open>
  Claim C1 as stated fails: \<open>completeLevel\<close> on a level with no completed task raises
  the flag and leaves the set empty.
\<close>

theorem completeLevel_breaks_invariant:
  "isCompleted (progressOrDefault (run_mutations [demo_level] [CompleteLevel ''1'' None] []) ''1'')
   \<and> \<not> set (task_ids demo_level) \<subseteq>
       set (completedTasks (progressOrDefault (run_mutations [demo_level] [CompleteLevel ''1'' None] []) ''1''))
   \<and> length (completedTasks (progressOrDefault (run_mutations [demo_level] [CompleteLevel ''1'' None] []) ''1''))
       \<noteq> length (tasks demo_level)"
  by (simp add: completeLevelProgress_def progressOrDefault_def demo_level_def task_ids_def)

text \<open>The invariant along a run that completes both tasks of a level, then the level.\<close>

theorem completion_invariant_preserved_witness:
  "catalog_ok [demo_level] \<and> store_ok [demo_level] [] \<and>
   admissible_run [demo_level]
     [UpdateTask ''1'' ''1.1'' None, UpdateTask ''1'' ''1.2'' None, CompleteLevel ''1'' None] [] \<and>
   store_ok [demo_level]
     (run_mutations [demo_level]
        [UpdateTask ''1'' ''1.1'' None, UpdateTask ''1'' ''1.2'' None, CompleteLevel ''1'' None] [])"
proof -
  have c: "catalog_ok [demo_level]"
    by (simp add: catalog_ok_def demo_level_def task_ids_def)
  have s: "store_ok [demo_level] []" by (simp add: store_ok_def)
  have a: "admissible_run [demo_level]
     [UpdateTask ''1'' ''1.1'' None, UpdateTask ''1'' ''1.2'' None, CompleteLevel ''1'' None] []"
    by (simp add: demo_level_def task_ids_def findLevel_def updateTaskProgress_def
        progressOrDefault_def defaultProgress_def set_add_def Let_def)
  from c s a completion_invariant_preserved[OF c s a] show ?thesis by simp
qed

section \<open>Progress never goes back\<close>

lemma progress_after_update:
  "progressOrDefault (updateTaskProgress LEVELS l t pc s) k =
     (if k = l then
        (let p = progressOrDefault s l;
             u = p\<lparr>completedTasks := set_add (completedTasks p) t,
                    currentProjectCode := (case pc of Some c \<Rightarrow> c | None \<Rightarrow> currentProjectCode p)\<rparr>
         in case findLevel LEVELS l of
              Some L \<Rightarrow> if length (set_add (completedTasks p) t) = length (tasks L)
                        then u\<lparr>isCompleted := True\<rparr> else u
            | None \<Rightarrow> u)
      else progressOrDefault s k)"
  by (simp add: updateTaskProgress_def progressOrDefault_def Let_def update_conv')

lemma progress_after_complete:
  "progressOrDefault (completeLevelProgress l pc s) k =
     (if k = l then
        (progressOrDefault s l)\<lparr>isCompleted := True,
           currentProjectCode :=
             (case pc of Some c \<Rightarrow> c | None \<Rightarrow> currentProjectCode (progressOrDefault s l))\<rparr>
      else progressOrDefault s k)"
  by (simp add: completeLevelProgress_def progressOrDefault_def defaultProgress_def Let_def
      update_conv' split: option.splits)

text \<open>
  Claim C9. For every store, every level and every mutation (\<open>updateTaskProgress\<close> or
  \<open>completeLevel\<close>): every task in the completed set of the level before the mutation
  is in it after, a completion flag that is up stays up, and adding a task that is
  already in the set leaves the set as it was.
\<close>

theorem progress_monotone:
  "set (completedTasks (progressOrDefault s k))
     \<subseteq> set (completedTasks (progressOrDefault (apply_mutation LEVELS m s) k))
   \<and> (isCompleted (progressOrDefault s k)
        \<longrightarrow> isCompleted (progressOrDefault (apply_mutation LEVELS m s) k))
   \<and> (t \<in> set (completedTasks (progressOrDefault s l))
        \<longrightarrow> completedTasks (progressOrDefault (updateTaskProgress LEVELS l t pc s) l)
            = completedTasks (progressOrDefault s l))"
proof (intro conjI impI)
  show "set (completedTasks (progressOrDefault s k))
     \<subseteq> set (completedTasks (progressOrDefault (apply_mutation LEVELS m s) k))"
    by (cases m)
      (auto simp: progress_after_update progress_after_complete Let_def set_add_def
        split: option.splits)
next
  assume "isCompleted (progressOrDefault s k)"
  then show "isCompleted (progressOrDefault (apply_mutation LEVELS m s) k)"
    by (cases m)
      (auto simp: progress_after_update progress_after_complete Let_def split: option.splits)
next
  assume "t \<in> set (completedTasks (progressOrDefault s l))"
  then show "completedTasks (progressOrDefault (updateTaskProgress LEVELS l t pc s) l)
            = completedTasks (progressOrDefault s l)"
    by (auto simp: progress_after_update Let_def set_add_def split: option.splits)
qed

text \<open>A completed level stays completed, and re-adding its task changes nothing.\<close>

theorem progress_monotone_witness:
  "isCompleted (progressOrDefault demo_done ''1'')
   \<and> isCompleted (progressOrDefault (apply_mutation [] (UpdateTask ''1'' ''1.2'' None) demo_done) ''1'')
   \<and> ''1.1'' \<in> set (completedTasks (progressOrDefault demo_done ''1''))
   \<and> completedTasks (progressOrDefault (updateTaskProgress [] ''1'' ''1.1'' None demo_done) ''1'')
       = [''1.1'']"
  using progress_monotone[of demo_done "''1''" "[]" "UpdateTask ''1'' ''1.2'' None" "''1.1''" "''1''" None]
  by (simp add: demo_done_def progressOrDefault_def)

section \<open>The unlock policy computes what the specification says\<close>

lemma findIndex_first:
  "\<forall>x\<in>set pre. \<not> P x \<Longrightarrow> P y \<Longrightarrow> findIndex P (pre @ y # post) = int (length pre)"
  by (induction pre) (auto simp: Let_def)

lemma at_index_append_last:
  "pre \<noteq> [] \<Longrightarrow> at_index (pre @ post) (int (length pre) - 1) = Some (last pre)"
  by (auto simp: at_index_def nth_append last_conv_nth nat_diff_distrib')

lemma levelsLoop_prefix:
  assumes "\<forall>l\<in>set pre. isCompletedIn up (level_id l)"
  shows "case List.find (\<lambda>l. \<not> isCompletedIn up (level_id l)) rest of
        Some l \<Rightarrow> levelsLoop (pre @ rest) up rest m = Inr (level_id l, False)
      | None \<Rightarrow> (\<exists>m'. levelsLoop (pre @ rest) up rest m = Inr (m', True))"
  using assms
proof (induction rest arbitrary: pre m)
  case Nil
  then show ?case by simp
next
  case (Cons level rest)
  show ?case
  proof (cases "isCompletedIn up (level_id level)")
    case True
    have pre': "\<forall>l\<in>set (pre @ [level]). isCompletedIn up (level_id l)"
      using Cons.prems True by simp
    have eq: "pre @ level # rest = (pre @ [level]) @ rest" by simp
    from Cons.IH[OF pre'] True show ?thesis
      unfolding eq by (auto split: option.splits)
  next
    case False
    have idx: "findIndex (\<lambda>l. level_id l = level_id level) (pre @ level # rest) = int (length pre)"
      using Cons.prems False by (intro findIndex_first) auto
    show ?thesis
    proof (cases "pre = []")
      case True
      with False idx show ?thesis by simp
    next
      case ne: False
      have "at_index (pre @ level # rest) (int (length pre) - 1) = Some (last pre)"
        by (rule at_index_append_last[OF ne])
      moreover have "isCompletedIn up (level_id (last pre))"
        using Cons.prems ne by simp
      ultimately show ?thesis using False idx ne by (simp add: Let_def)
    qed
  qed
qed

lemma firstReached_find:
  "firstReachedNotCompleted up True ls = List.find (\<lambda>l. \<not> isCompletedIn up (level_id l)) ls"
  by (induction ls) auto

lemma find_None_all:
  "(List.find (\<lambda>l. \<not> isCompletedIn up (level_id l)) ls = None)
     = list_all (\<lambda>l. isCompletedIn up (level_id l)) ls"
  by (induction ls) auto

lemma computeHighestUnlocked_nonempty:
  "LEVELS \<noteq> [] \<Longrightarrow> computeHighestUnlocked LEVELS up =
     (case levelsLoop LEVELS up LEVELS ''1'' of
        Inl e \<Rightarrow> Inl e
      | Inr (maxUnlocked, allLevelsCompleted) \<Rightarrow>
          Inr (if allLevelsCompleted then level_id (last LEVELS) else maxUnlocked))"
  by (cases LEVELS) (auto simp: computeHighestUnlocked_def split: sum.splits)

lemma computeHighestUnlocked_eq:
  "computeHighestUnlocked LEVELS up = Inr (spec_highestUnlocked LEVELS up)"
proof (cases "LEVELS = []")
  case True
  then show ?thesis by (simp add: computeHighestUnlocked_def spec_highestUnlocked_def)
next
  case ne: False
  have loop: "case List.find (\<lambda>l. \<not> isCompletedIn up (level_id l)) LEVELS of
        Some l \<Rightarrow> levelsLoop LEVELS up LEVELS ''1'' = Inr (level_id l, False)
      | None \<Rightarrow> (\<exists>m'. levelsLoop LEVELS up LEVELS ''1'' = Inr (m', True))"
    using levelsLoop_prefix[of "[]" up LEVELS "''1''"] by (simp split: option.splits)
  show ?thesis
  proof (cases "List.find (\<lambda>l. \<not> isCompletedIn up (level_id l)) LEVELS")
    case None
    with loop obtain m' where "levelsLoop LEVELS up LEVELS ''1'' = Inr (m', True)" by auto
    moreover from None have "list_all (\<lambda>l. isCompletedIn up (level_id l)) LEVELS"
      by (simp add: find_None_all)
    ultimately show ?thesis using ne
      by (simp add: computeHighestUnlocked_nonempty spec_highestUnlocked_def)
  next
    case (Some x)
    with loop have "levelsLoop LEVELS up LEVELS ''1'' = Inr (level_id x, False)" by simp
    moreover from Some have "\<not> list_all (\<lambda>l. isCompletedIn up (level_id l)) LEVELS"
      using find_None_all[of up LEVELS] by simp
    ultimately show ?thesis using ne Some
      by (simp add: computeHighestUnlocked_nonempty spec_highestUnlocked_def firstReached_find)
  qed
qed

text \<open>
  Claim C2. For every catalog and every progress store the effect computes the level
  of the specification: the first level, in catalog order, that is reached (it is the
  first level, or the level right before it is completed) and is not completed; the
  last level when every level is completed; the fixed identifier \<open>1\<close> for an empty
  catalog. No index is read out of range on the way. For three levels \<open>A\<close>, \<open>B\<close>,
  \<open>C\<close>: it is \<open>A\<close> when \<open>A\<close> is not completed, \<open>B\<close> when \<open>A\<close> is completed and \<open>B\<close>
  is not, \<open>C\<close> when all three are completed.
\<close>

theorem highestUnlocked_policy:
  "computeHighestUnlocked LEVELS up = Inr (spec_highestUnlocked LEVELS up)
   \<and> (\<not> isCompletedIn up (level_id A)
        \<longrightarrow> computeHighestUnlocked [A, B, C] up = Inr (level_id A))
   \<and> (isCompletedIn up (level_id A) \<and> \<not> isCompletedIn up (level_id B)
        \<longrightarrow> computeHighestUnlocked [A, B, C] up = Inr (level_id B))
   \<and> (isCompletedIn up (level_id A) \<and> isCompletedIn up (level_id B)
        \<and> isCompletedIn up (level_id C)
        \<longrightarrow> computeHighestUnlocked [A, B, C] up = Inr (level_id C))"
  by (simp add: computeHighestUnlocked_eq spec_highestUnlocked_def)

text \<open>The chain \<open>A\<close>, \<open>B\<close>, \<open>C\<close> with none, the first, and all three completed.\<close>

theorem highestUnlocked_policy_witness:
  "computeHighestUnlocked [levelA, levelB, levelC] [] = Inr ''A''
   \<and> isCompletedIn [(''A'', completedProgress)] (level_id levelA)
   \<and> \<not> isCompletedIn [(''A'', completedProgress)] (level_id levelB)
   \<and> computeHighestUnlocked [levelA, levelB, levelC] [(''A'', completedProgress)] = Inr ''B''
   \<and> isCompletedIn [(''A'', completedProgress), (''B'', completedProgress), (''C'', completedProgress)]
        (level_id levelC)
   \<and> computeHighestUnlocked [levelA, levelB, levelC]
        [(''A'', completedProgress), (''B'', completedProgress), (''C'', completedProgress)] = Inr ''C''"
proof -
  have a: "\<not> isCompletedIn [] (level_id levelA)" by (simp add: isCompletedIn_def)
  have b: "isCompletedIn [(''A'', completedProgress)] (level_id levelA)
           \<and> \<not> isCompletedIn [(''A'', completedProgress)] (level_id levelB)"
    by (simp add: isCompletedIn_def levelA_def levelB_def completedProgress_def)
  have c: "isCompletedIn [(''A'', completedProgress), (''B'', completedProgress), (''C'', completedProgress)] (level_id levelA)
         \<and> isCompletedIn [(''A'', completedProgress), (''B'', completedProgress), (''C'', completedProgress)] (level_id levelB)
         \<and> isCompletedIn [(''A'', completedProgress), (''B'', completedProgress), (''C'', completedProgress)] (level_id levelC)"
    by (simp add: isCompletedIn_def levelA_def levelB_def levelC_def completedProgress_def)
  from highestUnlocked_policy[of "[]" "[]" levelA levelB levelC] a
  have 1: "computeHighestUnlocked [levelA, levelB, levelC] [] = Inr (level_id levelA)" by blast
  from highestUnlocked_policy[of "[]" "[(''A'', completedProgress)]" levelA levelB levelC] b
  have 2: "computeHighestUnlocked [levelA, levelB, levelC] [(''A'', completedProgress)] = Inr (level_id levelB)"
    by blast
  from highestUnlocked_policy[of "[]" "[(''A'', completedProgress), (''B'', completedProgress), (''C'', completedProgress)]" levelA levelB levelC] c
  have 3: "computeHighestUnlocked [levelA, levelB, levelC]
        [(''A'', completedProgress), (''B'', completedProgress), (''C'', completedProgress)] = Inr (level_id levelC)"
    by blast
  from 1 2 3 b c show ?thesis by (simp add: levelA_def levelB_def levelC_def)
qed

section \<open>The selection guard\<close>

text \<open>
  In a catalog that is not empty the effect always computes the identifier of a level
  of the catalog, so the highest unlocked level has an index.
\<close>

lemma findIndex_member:
  "x \<in> set xs \<Longrightarrow> P x \<Longrightarrow> \<exists>i. findIndex P xs = int i"
proof (induction xs)
  case Nil
  then show ?case by simp
next
  case (Cons y ys)
  show ?case
  proof (cases "P y")
    case True
    then show ?thesis by (intro exI[of _ 0]) simp
  next
    case False
    with Cons obtain i where "findIndex P ys = int i" by auto
    with False show ?thesis by (intro exI[of _ "Suc i"]) simp
  qed
qed

lemma spec_highestUnlocked_member:
  "LEVELS \<noteq> [] \<Longrightarrow> \<exists>l\<in>set LEVELS. spec_highestUnlocked LEVELS up = level_id l"
proof -
  assume ne: "LEVELS \<noteq> []"
  show ?thesis
  proof (cases "firstReachedNotCompleted up True LEVELS")
    case None
    with ne show ?thesis
      by (auto simp: spec_highestUnlocked_def intro: bexI[of _ "last LEVELS"])
  next
    case (Some l)
    then have "l \<in> set LEVELS"
      by (auto simp: firstReached_find find_Some_iff)
    with ne Some show ?thesis
      by (auto simp: spec_highestUnlocked_def intro: bexI[of _ "last LEVELS"])
  qed
qed

lemma highestUnlocked_in_catalog:
  "LEVELS \<noteq> [] \<Longrightarrow>
   \<exists>h hi. computeHighestUnlocked LEVELS up = Inr h
      \<and> findIndex (\<lambda>l. level_id l = h) LEVELS = int hi"
proof -
  assume "LEVELS \<noteq> []"
  from spec_highestUnlocked_member[OF this, of up] obtain l where
    l: "l \<in> set LEVELS" and h: "spec_highestUnlocked LEVELS up = level_id l" by blast
  from findIndex_member[OF l, of "\<lambda>x. level_id x = level_id l"] obtain i where
    "findIndex (\<lambda>x. level_id x = level_id l) LEVELS = int i" by auto
  with h computeHighestUnlocked_eq[of LEVELS up] show ?thesis by auto
qed

lemma findIndex_bounds: "findIndex P xs < int (length xs) \<and> - 1 \<le> findIndex P xs"
  by (induction xs) (auto simp: Let_def)

lemma findIndex_found: "0 \<le> findIndex P xs \<Longrightarrow> \<exists>x. List.find P xs = Some x"
  by (induction xs) (auto simp: Let_def split: if_splits)

text \<open>
  Claim C6. Let the highest unlocked level and the requested level both be levels of
  the catalog, at indices \<open>hi\<close> and \<open>li\<close>. When \<open>li\<close> exceeds \<open>hi\<close> the request is
  rejected: the state (view, current level, progress store) is returned as it was, and
  the alert names the level at \<open>hi\<close> as the one to complete and the level at
  \<open>hi + 1\<close> as the one it unlocks. When \<open>li\<close> is at most \<open>hi\<close> the level is opened
  and no alert is shown.
\<close>

theorem selectLevel_guard:
  assumes hi: "findIndex (\<lambda>l. level_id l = highestLevelUnlocked st) LEVELS = int hi"
    and li: "findIndex (\<lambda>l. level_id l = levelId) LEVELS = int li"
  shows "(hi < li \<longrightarrow>
            selectLevel LEVELS levelId st
              = Inr (st, Some (lockedMessage (LEVELS ! hi) (LEVELS ! (hi + 1)))))
       \<and> (li \<le> hi \<longrightarrow>
            selectLevel LEVELS levelId st
              = Inr (st\<lparr>currentLevelId := Some levelId, currentView := level_view\<rparr>, None))"
proof -
  from li findIndex_found[of "\<lambda>l. level_id l = levelId" LEVELS]
  obtain x where f: "List.find (\<lambda>l. level_id l = levelId) LEVELS = Some x" by auto
  from li findIndex_bounds[of "\<lambda>l. level_id l = levelId" LEVELS]
  have lb: "li < length LEVELS" by simp
  show ?thesis
  proof (intro conjI impI)
    assume lt: "hi < li"
    with lb have a: "at_index LEVELS (int hi) = Some (LEVELS ! hi)"
      and b: "at_index LEVELS (int hi + 1) = Some (LEVELS ! (hi + 1))"
      by (simp_all add: at_index_def nat_add_distrib)
    from lt lb f hi li a b show "selectLevel LEVELS levelId st
              = Inr (st, Some (lockedMessage (LEVELS ! hi) (LEVELS ! (hi + 1))))"
      by (simp add: selectLevel_def Let_def)
  next
    assume "li \<le> hi"
    with f hi li show "selectLevel LEVELS levelId st
              = Inr (st\<lparr>currentLevelId := Some levelId, currentView := level_view\<rparr>, None)"
      by (simp add: selectLevel_def Let_def)
  qed
qed

text \<open>With \<open>A\<close> the highest unlocked level, \<open>C\<close> is refused and \<open>A\<close> is opened.\<close>

theorem selectLevel_guard_witness:
  "findIndex (\<lambda>l. level_id l = highestLevelUnlocked demo_state) [levelA, levelB, levelC] = int 0
   \<and> findIndex (\<lambda>l. level_id l = ''C'') [levelA, levelB, levelC] = int 2
   \<and> selectLevel [levelA, levelB, levelC] ''C'' demo_state
       = Inr (demo_state, Some (''Please complete '' @ dquote @ ''First'' @ dquote
                                  @ '' to unlock '' @ dquote @ ''Second'' @ dquote @ ''.''))
   \<and> findIndex (\<lambda>l. level_id l = ''A'') [levelA, levelB, levelC] = int 0
   \<and> selectLevel [levelA, levelB, levelC] ''A'' demo_state
       = Inr (demo_state\<lparr>currentLevelId := Some ''A'', currentView := level_view\<rparr>, None)"
proof -
  have h: "findIndex (\<lambda>l. level_id l = highestLevelUnlocked demo_state) [levelA, levelB, levelC] = int 0"
    by (simp add: demo_state_def levelA_def)
  have c: "findIndex (\<lambda>l. level_id l = ''C'') [levelA, levelB, levelC] = int 2"
    by (simp add: levelA_def levelB_def levelC_def)
  have a: "findIndex (\<lambda>l. level_id l = ''A'') [levelA, levelB, levelC] = int 0"
    by (simp add: levelA_def)
  from selectLevel_guard[OF h c]
  have 1: "selectLevel [levelA, levelB, levelC] ''C'' demo_state
       = Inr (demo_state, Some (lockedMessage levelA levelB))" by simp
  from selectLevel_guard[OF h a]
  have 2: "selectLevel [levelA, levelB, levelC] ''A'' demo_state
       = Inr (demo_state\<lparr>currentLevelId := Some ''A'', currentView := level_view\<rparr>, None)" by simp
  from h c a 1 2 show ?thesis by (simp add: lockedMessage_def levelA_def levelB_def)
qed


section \<open>Feedback while editing\<close>

lemma edits_keep_success:
  "feedback s = Some f \<Longrightarrow> success f \<Longrightarrow> feedback (edits cs s) = Some f"
  by (induction cs arbitrary: s) (simp_all add: handleCodeChange_def)

text \<open>
  The handler of an edit stores the new code. It clears a failure message, and leaves a
  success message, for one edit and for every run of edits.
\<close>

lemma handleCodeChange_feedback:
  "userCode (handleCodeChange c s) = c
   \<and> (feedback s = Some f \<and> \<not> success f \<longrightarrow> feedback (handleCodeChange c s) = None)
   \<and> (feedback s = Some f \<and> success f \<longrightarrow>
        feedback (handleCodeChange c s) = Some f \<and> feedback (edits cs s) = Some f)"
  by (auto simp: handleCodeChange_def edits_keep_success split: option.splits)

section \<open>The success message after a passed check\<close>

lemma task_1_1_checked:
  "validateHTMLStructure skeletonParser code task_1_1
     = \<lparr>success = True, message = ''HTML structure looks good!'', updatedProjectCode = None\<rparr>"
  by (simp add: validateHTMLStructure_def task_1_1_def expectTag_def selectorOf_def
      hasParent_def checkElement_def checkText_def skeletonParser_def plainElement_def)

lemma typed_task: "currentTask level_1 (view (editCode c opened)) = Some \<lparr>task_id = ''1.1''\<rparr>"
  by (simp add: currentTask_def editCode_def opened_def handleCodeChange_def level_1_def
      at_index_def)

lemma submitted_session:
  "submitted LEVELS =
     \<lparr>store = updateTaskProgress LEVELS ''1'' ''1.1'' (Some emptyProjectCode) [],
      view = \<lparr>currentTaskIndex = 0, userCode = ''<html><head></head><body></body></html>'',
              feedback = Some \<lparr>success = True, message = ''HTML structure looks good!'',
                               updatedProjectCode = None\<rparr>,
              projectCode = emptyProjectCode, isSubmitting = True\<rparr>,
      timers = [NextTaskTimer]\<rparr>"
proof -
  have c: "level_1_code skeletonParser \<lparr>task_id = ''1.1''\<rparr> =
        \<lparr>starterCode = (\<lambda>pc. []),
         validate = (\<lambda>code pc. validateHTMLStructure skeletonParser code task_1_1)\<rparr>"
    by (simp add: level_1_code_def)
  show ?thesis
    unfolding submitted_def handleSubmitCode_def typed_task
    by (simp add: c task_1_1_checked)
      (simp add: editCode_def opened_def handleCodeChange_def level_1_def levelProgressOf_def
        progressOrDefault_def defaultProgress_def)
qed

lemma submitted_progress:
  "completedTasks (levelProgressOf level_1 (submitted LEVELS)) = [''1.1'']"
  "currentProjectCode (levelProgressOf level_1 (submitted LEVELS)) = emptyProjectCode"
  by (simp_all add: submitted_session levelProgressOf_def level_1_def updateTaskProgress_def
      progressOrDefault_def defaultProgress_def set_add_def Let_def split: option.splits)

lemma progressEffect_submitted:
  "progressEffect level_1 (levelProgressOf level_1 (submitted LEVELS)) (view (submitted LEVELS))
     = (view (submitted LEVELS))\<lparr>currentTaskIndex := 1\<rparr>"
  by (simp add: progressEffect_def submitted_progress)
    (simp add: level_1_def submitted_session)

lemma rendered_view:
  "rendered LEVELS =
     \<lparr>currentTaskIndex = 1, userCode = starter_1_2, feedback = None,
      projectCode = emptyProjectCode, isSubmitting = True\<rparr>"
  unfolding rendered_def progressEffect_submitted
  by (simp add: taskEffect_def currentTask_def at_index_def submitted_session level_1_def
      level_1_code_def htmlOr_def emptyProjectCode_def)

text \<open>
  Claim C8 at a failing input. Level 1 is opened for the first time, the learner types
  the document of task 1.1 and has it checked. The check passes: the success message is
  set and the callback that clears it is scheduled. The stored progress of the level is
  no longer what it was, so the effect on it runs and moves on to task 1.2; the current
  task is no longer what it was, so the effect on it runs and clears the feedback. The
  success message is gone while the scheduled callback has yet to run and the session
  is still submitting: it is not the scheduled transition that takes the message away,
  and no edit can meet it.
\<close>

theorem success_message_cleared_before_timer:
  "feedback (view (submitted LEVELS))
     = Some \<lparr>success = True, message = ''HTML structure looks good!'',
             updatedProjectCode = None\<rparr>
   \<and> timers (submitted LEVELS) = [NextTaskTimer]
   \<and> levelProgressOf level_1 (submitted LEVELS) \<noteq> levelProgressOf level_1 opened
   \<and> currentTask level_1 (view (submitted LEVELS)) = Some \<lparr>task_id = ''1.1''\<rparr>
   \<and> currentTask level_1
        (progressEffect level_1 (levelProgressOf level_1 (submitted LEVELS))
           (view (submitted LEVELS)))
       = Some \<lparr>task_id = ''1.2''\<rparr>
   \<and> feedback (rendered LEVELS) = None
   \<and> isSubmitting (rendered LEVELS)
   \<and> userCode (rendered LEVELS) = starter_1_2"
proof (intro conjI)
  show "levelProgressOf level_1 (submitted LEVELS) \<noteq> levelProgressOf level_1 opened"
  proof
    assume "levelProgressOf level_1 (submitted LEVELS) = levelProgressOf level_1 opened"
    then have "completedTasks (levelProgressOf level_1 (submitted LEVELS))
               = completedTasks (levelProgressOf level_1 opened)" by simp
    moreover have "completedTasks (levelProgressOf level_1 opened) = []"
      by (simp add: levelProgressOf_def opened_def progressOrDefault_def defaultProgress_def)
    ultimately show False by (simp add: submitted_progress)
  qed
  show "currentTask level_1
        (progressEffect level_1 (levelProgressOf level_1 (submitted LEVELS))
           (view (submitted LEVELS)))
       = Some \<lparr>task_id = ''1.2''\<rparr>"
    unfolding progressEffect_submitted
    by (simp add: currentTask_def at_index_def level_1_def)
  show "currentTask level_1 (view (submitted LEVELS)) = Some \<lparr>task_id = ''1.1''\<rparr>"
    by (simp add: submitted_session currentTask_def at_index_def level_1_def)
qed (simp_all add: submitted_session rendered_view)

section \<open>Lists and strings\<close>

lemma find_Some_member: "List.find P xs = Some x \<Longrightarrow> x \<in> set xs \<and> P x"
  by (induction xs) (auto split: if_splits)


lemma startsWith_self: "startsWith (s @ b) s"
  by (induction s) auto

lemma includesStr_start: "startsWith t s \<Longrightarrow> includesStr t s"
  by (cases t; cases s) auto

lemma includesStr_append: "includesStr t s \<Longrightarrow> includesStr (a @ t) s"
  by (induction a) auto

lemma includesStr_middle: "includesStr (a @ s @ b) s"
  by (rule includesStr_append, rule includesStr_start, rule startsWith_self)


section \<open>The markup validator and the count 0\<close>

lemma checkText_fails: "checkText el e = Some r \<Longrightarrow> \<not> success r"
  by (auto simp: checkText_def failure_def Let_def
      split: option.splits StringOrRegExp.splits if_splits)

lemma checkAttributes_fails: "checkAttributes el e attrs = Some r \<Longrightarrow> \<not> success r"
  by (induction el e attrs rule: checkAttributes.induct)
    (auto simp: failure_def Let_def split: StringOrRegExp.splits if_splits)

lemma checkElement_fails: "checkElement el elements = Some r \<Longrightarrow> \<not> success r"
  by (auto simp: checkElement_def failure_def
      dest: checkText_fails checkAttributes_fails
      split: if_splits list.splits option.splits)

lemma checkElement_zero_count:
  "zeroCount el \<Longrightarrow>
   checkElement el elements =
     Some (failure (if elements = [] then missingMessage el
                    else countMessage el 0 (length elements)))"
  by (simp add: zeroCount_def checkElement_def)

lemma checkExpectations_zero_count:
  "list_ex zeroCount expectedElements \<Longrightarrow> \<not> success (checkExpectations doc expectedElements)"
proof (induction expectedElements)
  case Nil
  then show ?case by simp
next
  case (Cons el rest)
  show ?case
  proof (cases "doc (selectorOf el)")
    case (Inl err)
    then show ?thesis by (simp add: failure_def)
  next
    case (Inr elements)
    show ?thesis
    proof (cases "checkElement el elements")
      case None
      then have "\<not> zeroCount el" using checkElement_zero_count[of el elements] by auto
      with Cons None Inr show ?thesis by simp
    next
      case (Some r)
      with Inr checkElement_fails[OF Some] show ?thesis by simp
    qed
  qed
qed

text \<open>
  Claim C10. Whatever the parser and the document, the validator does not return
  success when one of its expectations has the count 0 for a tag other than \<open>!--\<close>.
  For such an expectation the exact-count check fails when an element matches, and the
  missing-element check fails when none does.
\<close>

theorem zero_count_never_succeeds:
  "(list_ex zeroCount expectedElements \<longrightarrow>
      \<not> success (validateHTMLStructure parseFromString code expectedElements))
   \<and> (zeroCount el \<and> elements \<noteq> [] \<longrightarrow>
        checkElement el elements = Some (failure (countMessage el 0 (length elements))))
   \<and> (zeroCount el \<longrightarrow> checkElement el [] = Some (failure (missingMessage el)))"
  by (simp add: validateHTMLStructure_def checkExpectations_zero_count checkElement_zero_count)

text \<open>The count 0 for \<open>p\<close>, with one match and with none.\<close>

theorem zero_count_never_succeeds_witness:
  "zeroCount ((expectTag ''p'')\<lparr>count := Some 0\<rparr>)
   \<and> \<not> success (validateHTMLStructure (\<lambda>code. emptyDocument) ''<div></div>''
                   [expectTag ''div'', (expectTag ''p'')\<lparr>count := Some 0\<rparr>])
   \<and> checkElement ((expectTag ''p'')\<lparr>count := Some 0\<rparr>) [plainElement]
       = Some (failure ''Expected 0 <p> element(s), but found 1.'')
   \<and> checkElement ((expectTag ''p'')\<lparr>count := Some 0\<rparr>) []
       = Some (failure ''Missing <p> element.'')"
proof -
  have z: "zeroCount ((expectTag ''p'')\<lparr>count := Some 0\<rparr>)"
    by (simp add: zeroCount_def expectTag_def)
  have ex: "list_ex zeroCount [expectTag ''div'', (expectTag ''p'')\<lparr>count := Some 0\<rparr>]"
    using z by simp
  have m: "missingMessage ((expectTag ''p'')\<lparr>count := Some 0\<rparr>) = ''Missing <p> element.''"
    by (simp add: missingMessage_def insideText_def hasParent_def expectTag_def)
  have c: "countMessage ((expectTag ''p'')\<lparr>count := Some 0\<rparr>) 0 (length [plainElement])
             = ''Expected 0 <p> element(s), but found 1.''"
    by (simp add: countMessage_def insideText_def hasParent_def expectTag_def numberToString_def
        decimalDigits.simps digit_char_def)
  from zero_count_never_succeeds[of "[expectTag ''div'', (expectTag ''p'')\<lparr>count := Some 0\<rparr>]"
      "\<lambda>code. emptyDocument" "''<div></div>''" "(expectTag ''p'')\<lparr>count := Some 0\<rparr>" "[plainElement]"]
    z ex m c
  show ?thesis by simp
qed

text \<open>
  When an expectation passes: the count, when given, is the number of matches (and is
  not 0, unless the tag is \<open>!--\<close>); without a count something matches, unless the tag is
  \<open>!--\<close>; and the text and the attributes of the first match pass.
\<close>

lemma checkElement_passes_iff:
  "(checkElement el elements = None) =
     ((case count el of
         Some c \<Rightarrow> int (length elements) = c \<and> (c \<noteq> 0 \<or> tag el = ''!--'')
       | None \<Rightarrow> elements \<noteq> [] \<or> tag el = ''!--'')
      \<and> (case elements of
            [] \<Rightarrow> True
          | firstElement # _ \<Rightarrow>
              checkText el firstElement = None
              \<and> (case attributes el of
                    None \<Rightarrow> True
                  | Some attrs \<Rightarrow> checkAttributes el firstElement attrs = None)))"
  by (auto simp: checkElement_def split: option.splits list.splits)

text \<open>
  Task 1.1 on a parsed document that has an \<open>html\<close> element with a \<open>body\<close> child: the
  answer follows what \<open>html > head\<close> matches there.
\<close>

lemma task_1_1_on_document:
  assumes "parseFromString code ''html'' = Inr (h # hs)"
    and "parseFromString code ''html > body'' = Inr (b # bs)"
  shows "parseFromString code ''html > head'' = Inr (x # xs) \<Longrightarrow>
           validateHTMLStructure parseFromString code task_1_1
             = \<lparr>success = True, message = ''HTML structure looks good!'',
                updatedProjectCode = None\<rparr>"
    and "parseFromString code ''html > head'' = Inr [] \<Longrightarrow>
           validateHTMLStructure parseFromString code task_1_1
             = failure ''Missing <head> element inside html.''"
  using assms
  by (simp_all add: validateHTMLStructure_def task_1_1_def expectTag_def selectorOf_def
      hasParent_def checkElement_def checkText_def missingMessage_def insideText_def)

text \<open>The validator returns success exactly when every expectation passes.\<close>

lemma checkExpectations_success:
  "success (checkExpectations doc expectedElements)
     = list_all (expectationPasses doc) expectedElements"
proof (induction expectedElements)
  case Nil
  then show ?case by simp
next
  case (Cons el rest)
  show ?case
  proof (cases "doc (selectorOf el)")
    case (Inl err)
    then show ?thesis by (simp add: expectationPasses_def failure_def)
  next
    case (Inr elements)
    show ?thesis
    proof (cases "checkElement el elements")
      case None
      with Inr Cons show ?thesis by (simp add: expectationPasses_def)
    next
      case (Some r)
      with Inr checkElement_fails[OF Some] show ?thesis by (simp add: expectationPasses_def)
    qed
  qed
qed

text \<open>
  Claim C7 at a failing input. The text is \<open><html><body></body></html>\<close>, the
  document of the claim with the \<open>head\<close> element removed. Whenever the parser builds
  for it a document in which \<open>html\<close> has a \<open>head\<close> child and a \<open>body\<close> child, as
  the parsing algorithm of HTML does by adding the \<open>head\<close> that the text leaves out,
  the validator of task 1.1 returns success.
\<close>

theorem task_1_1_accepts_implied_head:
  assumes "parseFromString ''<html><body></body></html>'' ''html'' = Inr (h # hs)"
    and "parseFromString ''<html><body></body></html>'' ''html > head'' = Inr (x # xs)"
    and "parseFromString ''<html><body></body></html>'' ''html > body'' = Inr (b # bs)"
  shows "validateHTMLStructure parseFromString ''<html><body></body></html>'' task_1_1
           = \<lparr>success = True, message = ''HTML structure looks good!'',
              updatedProjectCode = None\<rparr>"
  using assms
  by (simp add: validateHTMLStructure_def task_1_1_def expectTag_def selectorOf_def
      hasParent_def checkElement_def checkText_def)

text \<open>The parser that builds the three elements for every text.\<close>

theorem task_1_1_accepts_implied_head_witness:
  "skeletonParser ''<html><body></body></html>'' ''html'' = Inr [plainElement]
   \<and> skeletonParser ''<html><body></body></html>'' ''html > head'' = Inr [plainElement]
   \<and> skeletonParser ''<html><body></body></html>'' ''html > body'' = Inr [plainElement]
   \<and> validateHTMLStructure skeletonParser ''<html><body></body></html>'' task_1_1
       = \<lparr>success = True, message = ''HTML structure looks good!'',
          updatedProjectCode = None\<rparr>"
proof -
  have 1: "skeletonParser ''<html><body></body></html>'' ''html'' = Inr (plainElement # [])"
    by (simp add: skeletonParser_def)
  have 2: "skeletonParser ''<html><body></body></html>'' ''html > head'' = Inr (plainElement # [])"
    by (simp add: skeletonParser_def)
  have 3: "skeletonParser ''<html><body></body></html>'' ''html > body'' = Inr (plainElement # [])"
    by (simp add: skeletonParser_def)
  from task_1_1_accepts_implied_head[of skeletonParser plainElement "[]" plainElement "[]"
      plainElement "[]", OF 1 2 3] 1 2 3
  show ?thesis by simp
qed


section \<open>The markup validator against the specification\<close>



















section \<open>The style validator against the specification\<close>

subsection \<open>Locating the block of a selector\<close>

lemma find_map_option: "List.find P (map f xs) = map_option f (List.find (\<lambda>x. P (f x)) xs)"
  by (induction xs) auto

lemma upt_Suc_shift: "[0..<Suc (Suc n)] = 0 # map Suc [0..<Suc n]"
proof -
  have "[0..<Suc (Suc n)] = 0 # [Suc 0..<Suc (Suc n)]" by (rule upt_conv_Cons) simp
  also have "[Suc 0..<Suc (Suc n)] = map Suc [0..<Suc n]" by (rule map_Suc_upt[symmetric])
  finally show ?thesis .
qed

lemma find_suffix_Cons:
  "List.find (\<lambda>i. P (drop i (c # cs))) [0..<Suc (length (c # cs))] =
     (if P (c # cs) then Some 0
      else map_option Suc (List.find (\<lambda>i. P (drop i cs)) [0..<Suc (length cs)]))"
proof -
  have "List.find (\<lambda>i. P (drop i (c # cs))) [0..<Suc (Suc (length cs))] =
        List.find (\<lambda>i. P (drop i (c # cs))) (0 # map Suc [0..<Suc (length cs)])"
    by (simp only: upt_Suc_shift)
  then show ?thesis by (simp add: find_map_option del: upt_Suc)
qed


lemma startsWith_take: "startsWith s p = (take (length p) s = p)"
  by (induction s p rule: startsWith.induct) auto

lemma firstOccurrence_spec:
  "firstOccurrence s part = (case spec_firstOccurrence s part of None \<Rightarrow> - 1 | Some i \<Rightarrow> int i)"
proof (induction s)
  case Nil
  then show ?case by (auto simp: spec_firstOccurrence_def occursAt_def)
next
  case (Cons c cs)
  have "spec_firstOccurrence (c # cs) part =
     (if take (length part) (c # cs) = part then Some 0
      else map_option Suc (spec_firstOccurrence cs part))"
    unfolding spec_firstOccurrence_def occursAt_def
    by (rule find_suffix_Cons[of "\<lambda>t. take (length part) t = part"])
  with Cons show ?case
    by (auto simp: startsWith_take Let_def split: option.splits)
qed

lemma firstOccurrence_char:
  "firstOccurrence s [c] =
     (if c \<in> set s then int (length (takeWhile (\<lambda>x. x \<noteq> c) s)) else - 1)"
  by (induction s) (auto simp: Let_def)

lemma firstOccurrence_lower: "- 1 \<le> firstOccurrence s part"
  by (induction s) (auto simp: Let_def)

lemma indexOf_zero: "indexOf s part 0 = firstOccurrence s part"
  using firstOccurrence_lower[of s part] by (simp add: indexOf_def Let_def)

lemma indexOf_char:
  "i \<le> length s \<Longrightarrow>
   indexOf s [c] (int i) =
     (if c \<in> set (drop i s)
      then int (i + length (takeWhile (\<lambda>x. x \<noteq> c) (drop i s))) else - 1)"
  by (simp add: indexOf_def Let_def firstOccurrence_char)

lemma dropWhile_first:
  "c \<in> set t \<Longrightarrow> \<exists>inside. dropWhile (\<lambda>x. x \<noteq> c) t = c # inside"
  by (induction t) auto

lemma takeWhile_shorter:
  "c \<in> set t \<Longrightarrow> length (takeWhile (\<lambda>x. x \<noteq> c) t) < length t"
  by (induction t) auto

lemma spec_block_found:
  "spec_firstOccurrence code sel = Some i \<Longrightarrow> dropWhile (\<lambda>c. c \<noteq> CHR ''{'') (drop i code) = t \<Longrightarrow>
   spec_block code sel =
     (case t of
        [] \<Rightarrow> NoBraces
      | brace # inside \<Rightarrow>
          if CHR ''}'' \<in> set inside then Block (takeWhile (\<lambda>c. c \<noteq> CHR ''}'') inside)
          else NoBraces)"
  by (auto simp: spec_block_def)

lemma ruleContentOf_spec:
  "ruleContentOf code sel =
     (case spec_block code sel of
        NoSelector \<Rightarrow> Inl (failure (notFoundMessage sel))
      | NoBraces \<Rightarrow> Inl (failure (bracesMessage sel))
      | Block block \<Rightarrow> Inr block)"
proof (cases "spec_firstOccurrence code sel")
  case None
  then show ?thesis
    by (simp add: ruleContentOf_def spec_block_def indexOf_zero firstOccurrence_spec)
next
  case (Some i)
  then have "i \<in> set [0..<Suc (length code)]"
    unfolding spec_firstOccurrence_def by (auto dest: find_Some_member simp del: upt_Suc)
  then have il: "i \<le> length code" by (simp del: upt_Suc)
  have si: "indexOf code sel 0 = int i"
    using Some by (simp add: indexOf_zero firstOccurrence_spec)
  let ?t = "drop i code"
  let ?k = "length (takeWhile (\<lambda>x. x \<noteq> CHR ''{'') ?t)"
  show ?thesis
  proof (cases "CHR ''{'' \<in> set ?t")
    case False
    then have dwn: "dropWhile (\<lambda>c. c \<noteq> CHR ''{'') ?t = []" by auto
    have sb: "spec_block code sel = NoBraces"
      using spec_block_found[OF Some dwn] by simp
    have "indexOf code ''{'' (int i) = - 1"
      using False indexOf_char[OF il, of "CHR ''{''"] by simp
    then show ?thesis using si sb
      by (simp add: ruleContentOf_def Let_def)
  next
    case True
    have rs: "indexOf code ''{'' (int i) = int (i + ?k)"
      using True indexOf_char[OF il, of "CHR ''{''"] by simp
    from True obtain inside where dw: "dropWhile (\<lambda>c. c \<noteq> CHR ''{'') ?t = CHR ''{'' # inside"
      using dropWhile_first[of "CHR ''{''" ?t] by blast
    have dr: "drop (i + ?k) code = CHR ''{'' # inside"
      using dw by (simp add: dropWhile_eq_drop add.commute)
    have kl: "i + ?k \<le> length code"
    proof (rule ccontr)
      assume "\<not> i + ?k \<le> length code"
      then have "drop (i + ?k) code = []" by simp
      with dr show False by simp
    qed
    have "drop (Suc (i + ?k)) code = tl (drop (i + ?k) code)" by (simp add: drop_Suc tl_drop)
    with dr have dr1: "drop (Suc (i + ?k)) code = inside" by simp
    show ?thesis
    proof (cases "CHR ''}'' \<in> set inside")
      case False
      then have "indexOf code ''}'' (int (i + ?k)) = - 1"
        using indexOf_char[OF kl, of "CHR ''}''"] dr by simp
      moreover have sb: "spec_block code sel = NoBraces"
        using spec_block_found[OF Some dw] False by simp
      ultimately show ?thesis using si rs
        by (simp add: ruleContentOf_def Let_def)
    next
      case in2: True
      let ?m = "length (takeWhile (\<lambda>x. x \<noteq> CHR ''}'') inside)"
      have re: "indexOf code ''}'' (int (i + ?k)) = int (i + ?k + Suc ?m)"
        using in2 indexOf_char[OF kl, of "CHR ''}''"] dr by simp
      have ml: "?m < length inside"
        using in2 takeWhile_shorter[of "CHR ''}''" inside] by simp
      have "length (drop (i + ?k) code) = Suc (length inside)" using dr by simp
      then have len: "length code = Suc (i + ?k) + length inside" using kl by simp
      have "substring code (int (i + ?k) + 1) (int (i + ?k + Suc ?m))
              = take ?m (drop (Suc (i + ?k)) code)"
        using ml len by (simp add: substring_def Let_def nat_add_distrib min_def max_def)
      also have "\<dots> = takeWhile (\<lambda>x. x \<noteq> CHR ''}'') inside"
        using dr1 by (simp add: takeWhile_eq_take[symmetric])
      finally have sub: "substring code (int (i + ?k) + 1) (int (i + ?k + Suc ?m))
              = takeWhile (\<lambda>x. x \<noteq> CHR ''}'') inside" .
      have sb: "spec_block code sel = Block (takeWhile (\<lambda>x. x \<noteq> CHR ''}'') inside)"
        using spec_block_found[OF Some dw] in2 by simp
      from si rs re sub sb show ?thesis
        by (simp add: ruleContentOf_def Let_def)
    qed
  qed
qed

subsection \<open>The value of a property\<close>

lemma white_not_semicolon: "isWhiteSpace c \<Longrightarrow> c \<noteq> CHR '';''"
  by (auto simp: isWhiteSpace_def)

lemma trim_white:
  assumes "\<forall>c\<in>set s. isWhiteSpace c"
  shows "trim s = []"
proof -
  from assms have h: "dropWhile isWhiteSpace s = []" by (induction s) auto
  show ?thesis unfolding trim_def h by simp
qed

lemma trim_leading: "\<forall>c\<in>set ws. isWhiteSpace c \<Longrightarrow> trim (ws @ s) = trim s"
  by (simp add: trim_def dropWhile_append2)

lemma takeWhile_value:
  "takeWhile (\<lambda>c. c \<noteq> CHR '';'') afterColon =
     takeWhile isWhiteSpace afterColon
       @ takeWhile (\<lambda>c. c \<noteq> CHR '';'') (dropWhile isWhiteSpace afterColon)"
proof -
  have "takeWhile (\<lambda>c. c \<noteq> CHR '';'')
          (takeWhile isWhiteSpace afterColon @ dropWhile isWhiteSpace afterColon) =
        takeWhile isWhiteSpace afterColon
          @ takeWhile (\<lambda>c. c \<noteq> CHR '';'') (dropWhile isWhiteSpace afterColon)"
    by (rule takeWhile_append2) (auto dest: set_takeWhileD white_not_semicolon)
  then show ?thesis by simp
qed

lemma captureValue_spec:
  "map_option trim (captureValue afterColon) =
     (if takeWhile (\<lambda>c. c \<noteq> CHR '';'') afterColon \<noteq> []
      then Some (trim (takeWhile (\<lambda>c. c \<noteq> CHR '';'') afterColon)) else None)
   \<and> captureValue afterColon \<noteq> Some []"
proof -
  let ?ws = "takeWhile isWhiteSpace afterColon"
  let ?v = "takeWhile (\<lambda>c. c \<noteq> CHR '';'') (dropWhile isWhiteSpace afterColon)"
  have ws: "\<forall>c\<in>set ?ws. isWhiteSpace c" by (auto dest: set_takeWhileD)
  have whole: "takeWhile (\<lambda>c. c \<noteq> CHR '';'') afterColon = ?ws @ ?v" by (rule takeWhile_value)
  show ?thesis
  proof (cases "?v = []")
    case False
    then have c: "captureValue afterColon = Some ?v" by (simp add: captureValue_def Let_def)
    have "trim (?ws @ ?v) = trim ?v" by (rule trim_leading[OF ws])
    with False show ?thesis unfolding c whole by simp
  next
    case True
    show ?thesis
    proof (cases "?ws = []")
      case True
      with \<open>?v = []\<close> have c: "captureValue afterColon = None"
        by (simp add: captureValue_def Let_def)
      from True \<open>?v = []\<close> show ?thesis unfolding c whole by simp
    next
      case False
      with True have c: "captureValue afterColon = Some [last ?ws]"
        by (simp add: captureValue_def Let_def)
      from False ws have "isWhiteSpace (last ?ws)" using last_in_set by blast
      then have t1: "trim [last ?ws] = []" by (simp add: trim_def)
      have t2: "trim (?ws @ ?v) = []" using True ws by (simp add: trim_white)
      from t1 t2 False show ?thesis unfolding c whole by simp
    qed
  qed
qed

lemma matchAt_unfold:
  "take (length name) s = name \<Longrightarrow> dropWhile isWhiteSpace (drop (length name) s) = t \<Longrightarrow>
   matchAt s name =
     (case t of [] \<Rightarrow> None
      | c # afterColon \<Rightarrow> if c = CHR '':'' then captureValue afterColon else None)"
  by (auto simp: matchAt_def startsWith_take)

lemma spec_valueAt_unfold:
  "take (length name) s = name \<Longrightarrow> dropWhile isWhiteSpace (drop (length name) s) = t \<Longrightarrow>
   spec_valueAt name s =
     (case t of [] \<Rightarrow> None
      | c # afterColon \<Rightarrow>
          if c = CHR '':'' \<and> takeWhile (\<lambda>c. c \<noteq> CHR '';'') afterColon \<noteq> []
          then Some (trim (takeWhile (\<lambda>c. c \<noteq> CHR '';'') afterColon)) else None)"
  by (auto simp: spec_valueAt_def)

lemma matchAt_spec:
  "map_option trim (matchAt s name) = spec_valueAt name s \<and> matchAt s name \<noteq> Some []"
proof (cases "take (length name) s = name")
  case False
  then show ?thesis by (simp add: matchAt_def spec_valueAt_def startsWith_take)
next
  case True
  obtain t where t: "dropWhile isWhiteSpace (drop (length name) s) = t" by simp
  note m = matchAt_unfold[OF True t] and v = spec_valueAt_unfold[OF True t]
  show ?thesis
  proof (cases t)
    case Nil
    with m v show ?thesis by simp
  next
    case (Cons c afterColon)
    show ?thesis
    proof (cases "c = CHR '':''")
      case False
      with m v Cons show ?thesis by simp
    next
      case colon: True
      from m v Cons colon captureValue_spec[of afterColon] show ?thesis by simp
    qed
  qed
qed

lemma matchProp_spec:
  "map_option trim (matchProp block name) = spec_propertyValue block name
   \<and> matchProp block name \<noteq> Some []"
proof (induction block)
  case Nil
  have "spec_propertyValue [] name = spec_valueAt name []"
    by (simp add: spec_propertyValue_def split: option.splits)
  with matchAt_spec[of "[]" name] show ?case by simp
next
  case (Cons c cs)
  have f: "List.find (\<lambda>i. spec_valueAt name (drop i (c # cs)) \<noteq> None) [0..<Suc (length (c # cs))] =
     (if spec_valueAt name (c # cs) \<noteq> None then Some 0
      else map_option Suc (List.find (\<lambda>i. spec_valueAt name (drop i cs) \<noteq> None) [0..<Suc (length cs)]))"
    by (rule find_suffix_Cons[of "\<lambda>t. spec_valueAt name t \<noteq> None"])
  have sp: "spec_propertyValue (c # cs) name =
     (if spec_valueAt name (c # cs) \<noteq> None then spec_valueAt name (c # cs)
      else spec_propertyValue cs name)"
    unfolding spec_propertyValue_def f by (auto split: option.splits)
  show ?case
  proof (cases "matchAt (c # cs) name")
    case None
    with matchAt_spec[of "c # cs" name] have "spec_valueAt name (c # cs) = None" by simp
    with None sp Cons show ?thesis by simp
  next
    case (Some raw)
    with matchAt_spec[of "c # cs" name] have "spec_valueAt name (c # cs) = Some (trim raw)"
      and "raw \<noteq> []" by auto
    with Some sp show ?thesis by simp
  qed
qed

subsection \<open>The validator\<close>

lemma css_messages:
  "notFoundMessage sel = spec_failureMessage sel SelectorMissing"
  "bracesMessage sel = spec_failureMessage sel BracesMissing"
  "propertyNotFoundMessage name sel = spec_failureMessage sel (PropertyMissing name)"
  "mismatchMessage name sel expected v = spec_failureMessage sel (ValueDiffers name expected v)"
  by (cases expected;
      simp add: notFoundMessage_def bracesMessage_def propertyNotFoundMessage_def
        mismatchMessage_def squote_def quoted_def)+

lemma valueMatches_spec: "valueMatches expected v = spec_accepts expected v"
  by (cases expected) (simp_all add: valueMatches_def)

lemma checkProperties_spec:
  "list_all (\<lambda>p. literalName (fst p)) props \<Longrightarrow>
   checkProperties sel block props =
     (case List.find (\<lambda>p. present (spec_propertyFailure block p)) props of
        None \<Rightarrow> Continue
      | Some p \<Rightarrow>
          (case spec_propertyFailure block p of
             None \<Rightarrow> Continue
           | Some f \<Rightarrow> Return (failure (spec_failureMessage sel f))))"
proof (induction props)
  case Nil
  then show ?case by simp
next
  case (Cons p props)
  obtain name expected where p: "p = (name, expected)" by (cases p)
  from Cons.prems p have lit: "literalName name"
    and rest: "list_all (\<lambda>p. literalName (fst p)) props" by simp_all
  note IH = Cons.IH[OF rest]
  show ?case
  proof (cases "matchProp block name")
    case None
    with matchProp_spec[of block name] have "spec_propertyValue block name = None" by simp
    with None lit p show ?thesis
      by (simp add: spec_propertyFailure_def present_def css_messages)
  next
    case (Some raw)
    with matchProp_spec[of block name]
    have v: "spec_propertyValue block name = Some (trim raw)" and ne: "raw \<noteq> []" by auto
    show ?thesis
    proof (cases "spec_accepts expected (trim raw)")
      case True
      with Some v ne lit p IH show ?thesis
        by (simp add: spec_propertyFailure_def present_def valueMatches_spec)
    next
      case False
      with Some v ne lit p show ?thesis
        by (simp add: spec_propertyFailure_def present_def valueMatches_spec css_messages)
    qed
  qed
qed

lemma style_step:
  assumes "list_all (\<lambda>p. literalName (fst p)) (properties style)"
  shows "(case ruleContentOf code (selector style) of
            Inl r \<Rightarrow> Some r
          | Inr ruleContent \<Rightarrow>
              (case checkProperties (selector style) ruleContent (properties style) of
                 Return r \<Rightarrow> Some r
               | NotModelled \<Rightarrow> None
               | Continue \<Rightarrow> k)) =
         (case spec_styleFailure code style of
            None \<Rightarrow> k
          | Some f \<Rightarrow> Some (failure (spec_failureMessage (selector style) f)))"
proof (cases "spec_block code (selector style)")
  case NoSelector
  then show ?thesis
    by (simp add: ruleContentOf_spec spec_styleFailure_def css_messages)
next
  case NoBraces
  then show ?thesis
    by (simp add: ruleContentOf_spec spec_styleFailure_def css_messages)
next
  case (Block block)
  then have r: "ruleContentOf code (selector style) = Inr block"
    by (simp add: ruleContentOf_spec)
  note c = checkProperties_spec[OF assms, of "selector style" block]
  show ?thesis
  proof (cases "List.find (\<lambda>p. present (spec_propertyFailure block p)) (properties style)")
    case None
    with Block r c show ?thesis by (simp add: spec_styleFailure_def)
  next
    case (Some p)
    then have "present (spec_propertyFailure block p)" by (auto dest: find_Some_member)
    then obtain f where f: "spec_propertyFailure block p = Some f"
      by (auto simp: present_def split: option.splits)
    with Some Block r c show ?thesis by (simp add: spec_styleFailure_def)
  qed
qed

lemma validateCSSProperties_refinement:
  "literalNames styles \<Longrightarrow> validateCSSProperties code styles = Some (spec_validateCSS code styles)"
proof (induction styles)
  case Nil
  then show ?case by (simp add: spec_validateCSS_def)
next
  case (Cons style styles)
  from Cons.prems have lit: "list_all (\<lambda>p. literalName (fst p)) (properties style)"
    and rest: "literalNames styles" by (simp_all add: literalNames_def)
  have "validateCSSProperties code (style # styles) =
        (case spec_styleFailure code style of
            None \<Rightarrow> validateCSSProperties code styles
          | Some f \<Rightarrow> Some (failure (spec_failureMessage (selector style) f)))"
    using style_step[OF lit] by simp
  with Cons.IH[OF rest] show ?case
    by (auto simp: spec_validateCSS_def present_def failure_def split: option.splits)
qed

lemma spec_validateCSS_success:
  "success (spec_validateCSS code styles)
     = list_all (\<lambda>style. \<not> present (spec_styleFailure code style)) styles"
proof (cases "List.find (\<lambda>style. present (spec_styleFailure code style)) styles")
  case None
  then have a: "list_all (\<lambda>style. \<not> present (spec_styleFailure code style)) styles"
    by (simp add: find_None_iff list_all_iff)
  have "success (spec_validateCSS code styles)"
    unfolding spec_validateCSS_def None by simp
  with a show ?thesis by simp
next
  case (Some style)
  then have m: "style \<in> set styles \<and> present (spec_styleFailure code style)"
    by (rule find_Some_member)
  then obtain f where f: "spec_styleFailure code style = Some f"
    by (auto simp: present_def split: option.splits)
  have "\<not> success (spec_validateCSS code styles)"
    unfolding spec_validateCSS_def Some by (simp add: f)
  moreover from m have "\<not> list_all (\<lambda>style. \<not> present (spec_styleFailure code style)) styles"
    unfolding list_all_iff by blast
  ultimately show ?thesis by simp
qed





lemma includesStr_quoted: "msg = a @ quoted s @ b \<Longrightarrow> includesStr msg s"
  using includesStr_middle[of "a @ [CHR 0x27]" s "CHR 0x27 # b"] by (simp add: quoted_def)

lemma message_names_selector: "includesStr (spec_failureMessage sel f) sel"
proof (cases f)
  case SelectorMissing
  then show ?thesis
    by (intro includesStr_quoted[of _ "''CSS rule for selector ''" _ "'' not found.''"]) simp
next
  case BracesMissing
  then show ?thesis
    by (intro includesStr_quoted[of _
          "''Could not find opening or closing braces for CSS rule ''" _ "''.''"]) simp
next
  case (PropertyMissing name)
  then show ?thesis
    by (intro includesStr_quoted[of _
          "''Property '' @ quoted name @ '' not found for selector ''" _ "''.''"]) simp
next
  case (ValueDiffers name expected v)
  show ?thesis
  proof (cases expected)
    case (Str e)
    with ValueDiffers show ?thesis
      by (intro includesStr_quoted[of _ "''Property '' @ quoted name @ '' for ''" _
            "'' should be '' @ quoted e @ '', but found '' @ quoted v @ ''.''"]) simp
  next
    case (RegExp test source)
    with ValueDiffers show ?thesis
      by (intro includesStr_quoted[of _ "''Property '' @ quoted name @ '' for ''" _
            "'' has value '' @ quoted v @ '', which does not match pattern ''
               @ quoted source @ ''.''"]) simp
  qed
qed

lemma message_names_property:
  "includesStr (spec_failureMessage sel (PropertyMissing name)) name"
  "includesStr (spec_failureMessage sel (ValueDiffers name expected v)) name"
proof -
  show "includesStr (spec_failureMessage sel (PropertyMissing name)) name"
    by (intro includesStr_quoted[of _ "''Property ''" _
          "'' not found for selector '' @ quoted sel @ ''.''"]) simp
  show "includesStr (spec_failureMessage sel (ValueDiffers name expected v)) name"
  proof (cases expected)
    case (Str e)
    then show ?thesis
      by (intro includesStr_quoted[of _ "''Property ''" _
            "'' for '' @ quoted sel @ '' should be '' @ quoted e @ '', but found ''
               @ quoted v @ ''.''"]) simp
  next
    case (RegExp test source)
    then show ?thesis
      by (intro includesStr_quoted[of _ "''Property ''" _
            "'' for '' @ quoted sel @ '' has value '' @ quoted v
               @ '', which does not match pattern '' @ quoted source @ ''.''"]) simp
  qed
qed

text \<open>
  Claim C4. For every style text and every list of expectations whose property names are
  literal, the validator returns what the specification describes: for each
  expectation in turn, the block in braces that follows the first occurrence of the
  selector, and in it, for each property in turn, the value after the name and the
  colon up to the next semicolon, trimmed; a literal expected value is compared
  without regard to letter case, a pattern must match; the first selector, block or
  property that is missing, or value that differs, is the answer, a failure whose
  message names the selector and the property; success when there is none. On
  \<open>h1 { color: red; }\<close> the expectation of \<open>red\<close> for the \<open>color\<close> of \<open>h1\<close> gives success,
  and on \<open>h1 { color: blue; }\<close> the failure that names \<open>color\<close> and \<open>h1\<close>.
\<close>

theorem validateCSSProperties_spec:
  "(literalNames styles \<longrightarrow>
      validateCSSProperties code styles = Some (spec_validateCSS code styles))
   \<and> success (spec_validateCSS code styles)
       = list_all (\<lambda>style. \<not> present (spec_styleFailure code style)) styles
   \<and> includesStr (spec_failureMessage sel f) sel
   \<and> includesStr (spec_failureMessage sel (PropertyMissing name)) name
   \<and> includesStr (spec_failureMessage sel (ValueDiffers name expected v)) name
   \<and> validateCSSProperties ''h1 { color: red; }'' h1_red
       = Some \<lparr>success = True, message = ''CSS styles look correct!'',
               updatedProjectCode = None\<rparr>
   \<and> validateCSSProperties ''h1 { color: blue; }'' h1_red
       = Some \<lparr>success = False,
               message = ''Property 'color' for 'h1' should be 'red', but found 'blue'.'',
               updatedProjectCode = None\<rparr>"
proof (intro conjI impI)
  show "literalNames styles \<Longrightarrow>
        validateCSSProperties code styles = Some (spec_validateCSS code styles)"
    by (rule validateCSSProperties_refinement)
  show "success (spec_validateCSS code styles)
       = list_all (\<lambda>style. \<not> present (spec_styleFailure code style)) styles"
    by (rule spec_validateCSS_success)
  show "includesStr (spec_failureMessage sel f) sel"
    by (rule message_names_selector)
  show "includesStr (spec_failureMessage sel (PropertyMissing name)) name"
    by (rule message_names_property)
  show "includesStr (spec_failureMessage sel (ValueDiffers name expected v)) name"
    by (rule message_names_property)
  show "validateCSSProperties ''h1 { color: red; }'' h1_red
       = Some \<lparr>success = True, message = ''CSS styles look correct!'',
               updatedProjectCode = None\<rparr>"
    by code_simp
  show "validateCSSProperties ''h1 { color: blue; }'' h1_red
       = Some \<lparr>success = False,
               message = ''Property 'color' for 'h1' should be 'red', but found 'blue'.'',
               updatedProjectCode = None\<rparr>"
    by code_simp
qed

text \<open>
  A pattern that matches and one that does not, a selector that is missing, braces that
  are missing, a property that is missing, and a value that differs in the first of
  two expectations.
\<close>

theorem validateCSSProperties_spec_witness:
  "literalNames [p_padding, p_green]
   \<and> validateCSSProperties ''p { padding : 10px 20px; COLOR: red; color:  Green  }''
         [p_padding, p_green]
       = Some \<lparr>success = True, message = ''CSS styles look correct!'',
               updatedProjectCode = None\<rparr>
   \<and> validateCSSProperties ''p { padding: 12px; color: green; }'' [p_padding, p_green]
       = Some \<lparr>success = False,
               message = ''Property 'padding' for 'p' has value '12px', which does not match pattern '10px.*'.'',
               updatedProjectCode = None\<rparr>
   \<and> literalNames (h1_red @ [p_green])
   \<and> validateCSSProperties ''h1 { color: red; }'' (h1_red @ [p_green])
       = Some \<lparr>success = False, message = ''CSS rule for selector 'p' not found.'',
               updatedProjectCode = None\<rparr>
   \<and> validateCSSProperties ''h1 { color: red; } p color: green;'' (h1_red @ [p_green])
       = Some \<lparr>success = False,
               message = ''Could not find opening or closing braces for CSS rule 'p'.'',
               updatedProjectCode = None\<rparr>
   \<and> validateCSSProperties ''h1 { color: red; } p { margin: 0; colour: green; color:; }'' (h1_red @ [p_green])
       = Some \<lparr>success = False, message = ''Property 'color' not found for selector 'p'.'',
               updatedProjectCode = None\<rparr>
   \<and> validateCSSProperties ''h1 { color: blue; } p { margin: 0; }'' (h1_red @ [p_green])
       = Some \<lparr>success = False,
               message = ''Property 'color' for 'h1' should be 'red', but found 'blue'.'',
               updatedProjectCode = None\<rparr>"
proof -
  have l1: "literalNames [p_padding, p_green]" by code_simp
  have l2: "literalNames (h1_red @ [p_green])" by code_simp
  have s1: "spec_validateCSS ''p { padding : 10px 20px; COLOR: red; color:  Green  }''
              [p_padding, p_green]
       = \<lparr>success = True, message = ''CSS styles look correct!'',
               updatedProjectCode = None\<rparr>" by code_simp
  have s2: "spec_validateCSS ''p { padding: 12px; color: green; }'' [p_padding, p_green]
       = \<lparr>success = False,
               message = ''Property 'padding' for 'p' has value '12px', which does not match pattern '10px.*'.'',
               updatedProjectCode = None\<rparr>" by code_simp
  have s3: "spec_validateCSS ''h1 { color: red; }'' (h1_red @ [p_green])
       = \<lparr>success = False, message = ''CSS rule for selector 'p' not found.'',
               updatedProjectCode = None\<rparr>" by code_simp
  have s4: "spec_validateCSS ''h1 { color: red; } p color: green;'' (h1_red @ [p_green])
       = \<lparr>success = False,
               message = ''Could not find opening or closing braces for CSS rule 'p'.'',
               updatedProjectCode = None\<rparr>" by code_simp
  have s5: "spec_validateCSS ''h1 { color: red; } p { margin: 0; colour: green; color:; }'' (h1_red @ [p_green])
       = \<lparr>success = False, message = ''Property 'color' not found for selector 'p'.'',
               updatedProjectCode = None\<rparr>" by code_simp
  have s6: "spec_validateCSS ''h1 { color: blue; } p { margin: 0; }'' (h1_red @ [p_green])
       = \<lparr>success = False,
               message = ''Property 'color' for 'h1' should be 'red', but found 'blue'.'',
               updatedProjectCode = None\<rparr>" by code_simp
  note t = validateCSSProperties_spec[where styles = "[p_padding, p_green]"]
  note u = validateCSSProperties_spec[where styles = "h1_red @ [p_green]"]
  from l1 t[where code = "''p { padding : 10px 20px; COLOR: red; color:  Green  }''"] s1
  have 1: "validateCSSProperties ''p { padding : 10px 20px; COLOR: red; color:  Green  }''
         [p_padding, p_green]
       = Some \<lparr>success = True, message = ''CSS styles look correct!'',
               updatedProjectCode = None\<rparr>" by simp
  from l1 t[where code = "''p { padding: 12px; color: green; }''"] s2
  have 2: "validateCSSProperties ''p { padding: 12px; color: green; }'' [p_padding, p_green]
       = Some \<lparr>success = False,
               message = ''Property 'padding' for 'p' has value '12px', which does not match pattern '10px.*'.'',
               updatedProjectCode = None\<rparr>" by simp
  from l2 u[where code = "''h1 { color: red; }''"] s3
  have 3: "validateCSSProperties ''h1 { color: red; }'' (h1_red @ [p_green])
       = Some \<lparr>success = False, message = ''CSS rule for selector 'p' not found.'',
               updatedProjectCode = None\<rparr>" by simp
  from l2 u[where code = "''h1 { color: red; } p color: green;''"] s4
  have 4: "validateCSSProperties ''h1 { color: red; } p color: green;'' (h1_red @ [p_green])
       = Some \<lparr>success = False,
               message = ''Could not find opening or closing braces for CSS rule 'p'.'',
               updatedProjectCode = None\<rparr>" by simp
  from l2 u[where code = "''h1 { color: red; } p { margin: 0; colour: green; color:; }''"] s5
  have 5: "validateCSSProperties ''h1 { color: red; } p { margin: 0; colour: green; color:; }'' (h1_red @ [p_green])
       = Some \<lparr>success = False, message = ''Property 'color' not found for selector 'p'.'',
               updatedProjectCode = None\<rparr>" by simp
  from l2 u[where code = "''h1 { color: blue; } p { margin: 0; }''"] s6
  have 6: "validateCSSProperties ''h1 { color: blue; } p { margin: 0; }'' (h1_red @ [p_green])
       = Some \<lparr>success = False,
               message = ''Property 'color' for 'h1' should be 'red', but found 'blue'.'',
               updatedProjectCode = None\<rparr>" by simp
  from l1 l2 1 2 3 4 5 6 show ?thesis by blast
qed

section \<open>Saving and loading the progress store\<close>

lemma toJSON_strings:
  "map (\<lambda>x. case toJSON x of None \<Rightarrow> JNull | Some j \<Rightarrow> j) (map JString ts) = map JString ts"
  by (induction ts) auto

lemma toJSON_projectCode: "toJSON (projectCodeValue pc) = Some (projectCodeValue pc)"
  by (simp add: projectCodeValue_def optionalField_def split: option.splits)

lemma toJSON_progress: "toJSON (progressValue p) = Some (savedEntry p)"
  by (simp add: progressValue_def savedEntry_def toJSON_strings toJSON_projectCode)

lemma savedProgress_entries:
  "savedProgress up = Some (JObject (map (\<lambda>(levelId, p). (levelId, savedEntry p)) up))"
  unfolding savedProgress_def storeValue_def
  by (induction up) (auto simp: toJSON_progress)

lemma list_ex_same_string:
  "list_ex (sameValueZero (JString t)) members = (JString t \<in> set members)"
  by (induction members) auto

lemma newSet_fold_distinct:
  "distinct (acc @ ts) \<Longrightarrow>
   foldl jsSetAdd (map JString acc) (map JString ts) = map JString (acc @ ts)"
proof (induction ts arbitrary: acc)
  case Nil
  then show ?case by simp
next
  case (Cons t ts)
  from Cons.prems have notin: "JString t \<notin> set (map JString acc)" by auto
  then have step: "jsSetAdd (map JString acc) (JString t) = map JString (acc @ [t])"
    by (simp add: jsSetAdd_def list_ex_same_string)
  from Cons.prems have "distinct ((acc @ [t]) @ ts)" by simp
  from Cons.IH[OF this] step show ?case by simp
qed

lemma newSet_distinct_strings: "distinct ts \<Longrightarrow> newSet (map JString ts) = map JString ts"
  using newSet_fold_distinct[of "[]" ts] by (simp add: newSet_def)

lemma newSet_fold_set:
  "distinct acc \<Longrightarrow>
   distinct (foldl jsSetAdd acc (map JString ts))
   \<and> set (foldl jsSetAdd acc (map JString ts)) = set acc \<union> JString ` set ts"
proof (induction ts arbitrary: acc)
  case Nil
  then show ?case by simp
next
  case (Cons t ts)
  have d: "distinct (jsSetAdd acc (JString t))"
    using Cons.prems by (simp add: jsSetAdd_def list_ex_same_string)
  have s: "set (jsSetAdd acc (JString t)) = insert (JString t) (set acc)"
    by (auto simp: jsSetAdd_def list_ex_same_string)
  from Cons.IH[OF d] s show ?case by auto
qed

lemma restoreEntry_saved:
  "distinct (completedTasks p) \<Longrightarrow> restoreEntry (savedEntry p) = Inr (progressValue p)"
  by (simp add: savedEntry_def progressValue_def newSet_distinct_strings)

lemma restoreEntries_saved:
  "setsDistinct up \<Longrightarrow>
   restoreEntries (map (\<lambda>(levelId, p). (levelId, savedEntry p)) up)
     = Inr (map (\<lambda>(levelId, p). (levelId, progressValue p)) up)"
  by (induction up) (auto simp: setsDistinct_def restoreEntry_saved)

lemma restoreEntry_malformed:
  "malformedTasks props \<Longrightarrow>
   restoreEntry (JObject props) = Inr (JObject (AList.update ''completedTasks'' (JSet []) props))"
  by (auto simp: malformedTasks_def Let_def split: option.splits jsval.splits)

text \<open>
  Claim C5. For every progress store (each \<open>Set\<close> holding its members once), loading
  what the saving effect wrote gives the store back: the same completed tasks, the same
  project code and the same completion flag for every level. The text holds each set
  as the array of its members; \<open>new Set\<close> on an array of strings keeps each string
  once; and a \<open>completedTasks\<close> property that is missing or is not an array is
  replaced by the empty set.
\<close>

theorem save_load_roundtrip:
  "(setsDistinct up \<longrightarrow> loadProgress (savedProgress up) = Inr (storeValue up))
   \<and> savedProgress up = Some (JObject (map (\<lambda>(levelId, p). (levelId, savedEntry p)) up))
   \<and> distinct (newSet (map JString names))
   \<and> set (newSet (map JString names)) = JString ` set names
   \<and> (malformedTasks props \<longrightarrow>
        restoreEntry (JObject props)
          = Inr (JObject (AList.update ''completedTasks'' (JSet []) props)))"
proof (intro conjI impI)
  assume "setsDistinct up"
  then show "loadProgress (savedProgress up) = Inr (storeValue up)"
    by (simp add: savedProgress_entries restoreEntries_saved storeValue_def)
next
  show "savedProgress up = Some (JObject (map (\<lambda>(levelId, p). (levelId, savedEntry p)) up))"
    by (rule savedProgress_entries)
next
  show "distinct (newSet (map JString names))"
    using newSet_fold_set[of "[]" names] by (simp add: newSet_def)
next
  show "set (newSet (map JString names)) = JString ` set names"
    using newSet_fold_set[of "[]" names] by (simp add: newSet_def)
next
  assume "malformedTasks props"
  then show "restoreEntry (JObject props)
          = Inr (JObject (AList.update ''completedTasks'' (JSet []) props))"
    by (rule restoreEntry_malformed)
qed

text \<open>A store of two levels, and an entry whose \<open>completedTasks\<close> is a string.\<close>

theorem save_load_roundtrip_witness:
  "setsDistinct demo_store
   \<and> loadProgress (savedProgress demo_store) = Inr (storeValue demo_store)
   \<and> malformedTasks [(''completedTasks'', JString ''1.1''), (''isCompleted'', JBool True)]
   \<and> restoreEntry (JObject [(''completedTasks'', JString ''1.1''), (''isCompleted'', JBool True)])
       = Inr (JObject [(''completedTasks'', JSet []), (''isCompleted'', JBool True)])"
proof -
  have d: "setsDistinct demo_store" by (simp add: setsDistinct_def demo_store_def)
  have m: "malformedTasks [(''completedTasks'', JString ''1.1''), (''isCompleted'', JBool True)]"
    by (simp add: malformedTasks_def)
  note t = save_load_roundtrip[of demo_store "[]"
      "[(''completedTasks'', JString ''1.1''), (''isCompleted'', JBool True)]"]
  from t d have 1: "loadProgress (savedProgress demo_store) = Inr (storeValue demo_store)"
    by blast
  from t m have "restoreEntry (JObject [(''completedTasks'', JString ''1.1''), (''isCompleted'', JBool True)])
       = Inr (JObject (AList.update ''completedTasks'' (JSet [])
                [(''completedTasks'', JString ''1.1''), (''isCompleted'', JBool True)]))"
    by blast
  then have 2: "restoreEntry (JObject [(''completedTasks'', JString ''1.1''), (''isCompleted'', JBool True)])
       = Inr (JObject [(''completedTasks'', JSet []), (''isCompleted'', JBool True)])"
    by simp
  from d 1 m 2 show ?thesis by blast
qed

end
